theory Spec2Isabelle
  imports Complex_Main "HOL-Library.Log_Nat"
begin

section \<open>JavaScript numbers\<close>

text \<open>
  A JavaScript \<open>number\<close> is an IEEE 754 double.  The millisecond timestamps of the
  delta engine are modelled as \<open>int\<close>: below \<open>2^53\<close> their differences are exact.
  The other numbers are held as \<open>rat\<close>, and what the code computes from them is
  rounded to the nearest double by \<open>fl\<close> (53-bit significand, ties to even).  Overflow and
  subnormal numbers are out of reach of the quantities of this program and are not
  modelled.
\<close>

text \<open>Round to the nearest integer, ties to the even one.\<close>

definition rhe :: "rat \<Rightarrow> int" where
  "rhe z = (let f = \<lfloor>z\<rfloor>; d = z - of_int f in
            if d < 1/2 then f else if 1/2 < d then f + 1 else if even f then f else f + 1)"

text \<open>The binary exponent \<open>e\<close> of a positive number: \<open>2^e \<le> x < 2^(e+1)\<close>.\<close>

definition ilog2 :: "rat \<Rightarrow> int" where
  "ilog2 x = (if 1 \<le> x then int (floorlog 2 (nat \<lfloor>x\<rfloor>)) - 1
              else - int (floorlog 2 (nat \<lceil>1 / x\<rceil> - 1)))"

definition fl_pos :: "rat \<Rightarrow> rat" where
  "fl_pos x = (let u = 2 powi (ilog2 x - 52) in of_int (rhe (x / u)) * u)"

definition fl :: "rat \<Rightarrow> rat" where
  "fl x = (if x = 0 then 0 else if 0 < x then fl_pos x else - fl_pos (- x))"

text \<open>\<open>Math.round\<close>: the nearest integer, ties towards plus infinity.\<close>

definition Math_round :: "rat \<Rightarrow> int" where
  "Math_round x = \<lfloor>x + 1/2\<rfloor>"

subsection \<open>Rounding to an integer\<close>

lemma rhe_floor: "\<lfloor>z\<rfloor> \<le> rhe z"
  unfolding rhe_def Let_def by simp

lemma rhe_ge: "of_int m \<le> z \<Longrightarrow> m \<le> rhe z"
proof -
  assume "of_int m \<le> z"
  then have "m \<le> \<lfloor>z\<rfloor>" by (simp add: le_floor_iff)
  then show ?thesis using rhe_floor[of z] by linarith
qed

lemma rhe_le: "z \<le> of_int m \<Longrightarrow> rhe z \<le> m"
proof -
  assume a: "z \<le> of_int m"
  show ?thesis
  proof (cases "z = of_int m")
    case True
    then show ?thesis by (simp add: rhe_def)
  next
    case False
    then have "z < of_int m" using a by simp
    then have "\<lfloor>z\<rfloor> < m" by (simp add: floor_less_iff)
    then show ?thesis unfolding rhe_def Let_def by simp
  qed
qed


subsection \<open>The binary exponent\<close>

lemma floorlog2_pos: "0 < n \<Longrightarrow> 0 < floorlog 2 n"
  using floorlog_eq_zero_iff[of 2 n] by auto

lemma pow2_le_of_nat: "(2::nat) ^ k \<le> n \<Longrightarrow> (2::rat) ^ k \<le> of_nat n"
proof -
  assume "(2::nat) ^ k \<le> n"
  then have "(of_nat (2 ^ k) :: rat) \<le> of_nat n" by (simp only: of_nat_le_iff)
  then show ?thesis by simp
qed

lemma of_nat_le_pow2: "n \<le> (2::nat) ^ k \<Longrightarrow> (of_nat n :: rat) \<le> 2 ^ k"
proof -
  assume "n \<le> (2::nat) ^ k"
  then have "(of_nat n :: rat) \<le> of_nat (2 ^ k)" by (simp only: of_nat_le_iff)
  then show ?thesis by simp
qed

lemma ilog2_lower:
  assumes "0 < x"
  shows "2 powi (ilog2 x) \<le> x"
proof (cases "1 \<le> x")
  case True
  define n where "n = nat \<lfloor>x\<rfloor>"
  have n: "0 < n" using True by (simp add: n_def)
  from floorlog_bounds[OF n, of 2] have b: "2 ^ (floorlog 2 n - 1) \<le> n" by simp
  have fpos: "0 < floorlog 2 n" using n by (rule floorlog2_pos)
  have "ilog2 x = int (floorlog 2 n - 1)" using True fpos by (simp add: ilog2_def n_def)
  then have "2 powi (ilog2 x) = (2::rat) ^ (floorlog 2 n - 1)" by simp
  also have "\<dots> \<le> of_nat n" using b by (rule pow2_le_of_nat)
  also have "\<dots> = of_int \<lfloor>x\<rfloor>" using True by (simp add: n_def)
  also have "\<dots> \<le> x" by simp
  finally show ?thesis .
next
  case False
  define n where "n = nat \<lceil>1 / x\<rceil>"
  have y: "1 < 1 / x" using False assms by simp
  then have "1 < \<lceil>1 / x\<rceil>" by (simp only: less_ceiling_iff of_int_1)
  then have n2: "2 \<le> n" unfolding n_def by linarith
  have "1 / x \<le> of_int \<lceil>1 / x\<rceil>" by (rule le_of_int_ceiling)
  also have "\<dots> = of_nat n" using n2 by (simp add: n_def)
  finally have le: "1 / x \<le> of_nat n" .
  have "n - 1 < 2 ^ floorlog 2 (n - 1)" using floorlog_bounds[of "n - 1" 2] n2 by simp
  then have "n \<le> 2 ^ floorlog 2 (n - 1)" by simp
  then have "(of_nat n :: rat) \<le> 2 ^ floorlog 2 (n - 1)" by (rule of_nat_le_pow2)
  then have "1 / x \<le> 2 ^ floorlog 2 (n - 1)" using le by (rule order_trans[rotated])
  then have "1 / 2 ^ floorlog 2 (n - 1) \<le> x" using assms
    by (simp add: field_simps)
  moreover have "ilog2 x = - int (floorlog 2 (n - 1))"
    using False by (simp add: ilog2_def n_def)
  ultimately show ?thesis by (simp add: power_int_minus field_simps)
qed

lemma ilog2_upper:
  assumes "0 < x"
  shows "x < 2 powi (ilog2 x + 1)"
proof (cases "1 \<le> x")
  case True
  define n where "n = nat \<lfloor>x\<rfloor>"
  have n: "0 < n" using True by (simp add: n_def)
  from floorlog_bounds[OF n, of 2] have b: "n < 2 ^ floorlog 2 n" by simp
  then have "n + 1 \<le> 2 ^ floorlog 2 n" by simp
  then have c: "(of_nat (n + 1) :: rat) \<le> 2 ^ floorlog 2 n" by (rule of_nat_le_pow2)
  have "ilog2 x + 1 = int (floorlog 2 n)" using True by (simp add: ilog2_def n_def)
  then have e: "2 powi (ilog2 x + 1) = (2::rat) ^ floorlog 2 n" by simp
  have "x < of_int \<lfloor>x\<rfloor> + 1" by linarith
  also have "\<dots> = of_nat (n + 1)" using True by (simp add: n_def)
  also have "\<dots> \<le> 2 ^ floorlog 2 n" using c by simp
  finally show ?thesis using e by simp
next
  case False
  define n where "n = nat \<lceil>1 / x\<rceil>"
  define k where "k = floorlog 2 (n - 1)"
  have y: "1 < 1 / x" using False assms by simp
  then have "1 < \<lceil>1 / x\<rceil>" by (simp only: less_ceiling_iff of_int_1)
  then have n2: "2 \<le> n" unfolding n_def by linarith
  have kpos: "0 < k" unfolding k_def using n2 by (intro floorlog2_pos) simp
  have "2 ^ (k - 1) \<le> n - 1" using floorlog_bounds[of "n - 1" 2] n2 by (simp add: k_def)
  then have "(2::rat) ^ (k - 1) \<le> of_nat (n - 1)" by (rule pow2_le_of_nat)
  then have a: "(2::rat) ^ (k - 1) \<le> of_nat n - 1" using n2 by (simp add: of_nat_diff)
  have "of_int \<lceil>1 / x\<rceil> - 1 < 1 / x" by linarith
  moreover have "of_int \<lceil>1 / x\<rceil> = (of_nat n :: rat)" using n2 by (simp add: n_def)
  ultimately have "of_nat n - 1 < 1 / x" by simp
  then have "(2::rat) ^ (k - 1) < 1 / x" using a by simp
  then have "x < 1 / 2 ^ (k - 1)" using assms by (simp add: field_simps)
  moreover have "ilog2 x + 1 = - int (k - 1)"
    using False kpos by (simp add: ilog2_def n_def k_def)
  ultimately show ?thesis by (simp add: power_int_minus field_simps)
qed

lemma pow2i_less_imp: "(2::rat) powi a < 2 powi b \<Longrightarrow> a < b"
proof (rule ccontr)
  assume l: "(2::rat) powi a < 2 powi b" and "\<not> a < b"
  then have "b \<le> a" by simp
  then have "(2::rat) powi b \<le> 2 powi a" by (intro power_int_increasing) simp_all
  then show False using l by simp
qed

lemma ilog2_unique:
  assumes "2 powi e \<le> x" "x < 2 powi (e + 1)"
  shows "ilog2 x = e"
proof -
  have "(0::rat) < 2 powi e" by (simp add: zero_less_power_int)
  then have xpos: "0 < x" using assms(1) by linarith
  have "(2::rat) powi e < 2 powi (ilog2 x + 1)"
    using assms(1) ilog2_upper[OF xpos] by linarith
  then have 1: "e < ilog2 x + 1" by (rule pow2i_less_imp)
  have "(2::rat) powi (ilog2 x) < 2 powi (e + 1)"
    using assms(2) ilog2_lower[OF xpos] by linarith
  then have 2: "ilog2 x < e + 1" by (rule pow2i_less_imp)
  show ?thesis using 1 2 by simp
qed

subsection \<open>Rounding is monotone through every representable number\<close>

lemma scaled_ge_2_52:
  assumes "0 < x"
  shows "(2::rat) ^ 52 \<le> x / 2 powi (ilog2 x - 52)"
proof -
  have u: "(0::rat) < 2 powi (ilog2 x - 52)" by (simp add: zero_less_power_int)
  have "(2::rat) powi (ilog2 x) = 2 powi (52 + (ilog2 x - 52))" by simp
  also have "\<dots> = 2 powi 52 * 2 powi (ilog2 x - 52)" by (subst power_int_add) simp_all
  finally have "(2::rat) ^ 52 * 2 powi (ilog2 x - 52) \<le> x"
    using ilog2_lower[OF assms] by simp
  then show ?thesis using u by (simp add: pos_le_divide_eq)
qed

lemma mant_split:
  "of_int m * (2::rat) powi k = (of_int m * 2 powi (k - (e - 52))) * 2 powi (e - 52)"
proof -
  have "(2::rat) powi k = 2 powi ((k - (e - 52)) + (e - 52))" by simp
  also have "\<dots> = 2 powi (k - (e - 52)) * 2 powi (e - 52)"
    by (subst power_int_add) simp_all
  finally show ?thesis by simp
qed

lemma mant_small:
  assumes "m \<le> 2 ^ 53" "j < 0"
  shows "of_int m * (2::rat) powi j \<le> 2 ^ 52"
proof -
  have "(2::rat) powi j \<le> 2 powi (- 1)"
    using assms(2) by (intro power_int_increasing) simp_all
  then have a: "(2::rat) powi j \<le> 1 / 2" by (simp add: power_int_minus)
  have b: "(of_int m :: rat) \<le> 2 ^ 53"
    using assms(1) by (metis of_int_le_iff of_int_numeral of_int_power)
  have p: "(0::rat) \<le> 2 powi j" by (simp add: zero_le_power_int)
  have "of_int m * (2::rat) powi j \<le> 2 ^ 53 * 2 powi j" using b p by (rule mult_right_mono)
  also have "\<dots> \<le> 2 ^ 53 * (1 / 2)" using a by (intro mult_left_mono) simp_all
  finally show ?thesis by simp
qed

lemma mant_int:
  assumes "0 \<le> j"
  shows "of_int m * (2::rat) powi j = of_int (m * 2 ^ nat j)"
  using assms by (simp add: power_int_def)

lemma fl_pos_ge:
  assumes x: "0 < x" and m: "m \<le> 2 ^ 53" and le: "of_int m * 2 powi k \<le> x"
  shows "of_int m * 2 powi k \<le> fl_pos x"
proof -
  define e where "e = ilog2 x"
  define u :: rat where "u = 2 powi (e - 52)"
  define j where "j = k - (e - 52)"
  define z where "z = x / u"
  have u: "0 < u" unfolding u_def by (simp add: zero_less_power_int)
  have y: "of_int m * 2 powi k = (of_int m * 2 powi j) * u"
    unfolding u_def j_def by (rule mant_split)
  have xz: "x = z * u" using u by (simp add: z_def)
  have z52: "2 ^ 52 \<le> z" unfolding z_def u_def e_def using x by (rule scaled_ge_2_52)
  have wz: "of_int m * 2 powi j \<le> z"
    using le u unfolding y xz by (simp only: mult_le_cancel_right_pos)
  have "of_int m * (2::rat) powi j \<le> of_int (rhe z)"
  proof (cases "0 \<le> j")
    case True
    have "of_int (m * 2 ^ nat j) \<le> z" using wz by (simp only: mant_int[OF True])
    then have "m * 2 ^ nat j \<le> rhe z" by (rule rhe_ge)
    then have "(of_int (m * 2 ^ nat j) :: rat) \<le> of_int (rhe z)"
      by (simp only: of_int_le_iff)
    then show ?thesis by (simp only: mant_int[OF True])
  next
    case False
    then have "of_int m * (2::rat) powi j \<le> 2 ^ 52" using m by (intro mant_small) simp_all
    moreover have "(of_int (2 ^ 52) :: rat) \<le> z" using z52 by simp
    then have "(2 ^ 52 :: int) \<le> rhe z" by (rule rhe_ge)
    then have "(of_int (2 ^ 52) :: rat) \<le> of_int (rhe z)" by (simp only: of_int_le_iff)
    ultimately show ?thesis by simp
  qed
  then have "(of_int m * 2 powi j) * u \<le> of_int (rhe z) * u"
    using u by (simp only: mult_le_cancel_right_pos)
  then show ?thesis unfolding y fl_pos_def Let_def z_def u_def e_def .
qed

lemma fl_pos_le:
  assumes x: "0 < x" and m: "m \<le> 2 ^ 53" and le: "x \<le> of_int m * 2 powi k"
  shows "fl_pos x \<le> of_int m * 2 powi k"
proof -
  define e where "e = ilog2 x"
  define u :: rat where "u = 2 powi (e - 52)"
  define j where "j = k - (e - 52)"
  define z where "z = x / u"
  have u: "0 < u" unfolding u_def by (simp add: zero_less_power_int)
  have y: "of_int m * 2 powi k = (of_int m * 2 powi j) * u"
    unfolding u_def j_def by (rule mant_split)
  have xz: "x = z * u" using u by (simp add: z_def)
  have z52: "2 ^ 52 \<le> z" unfolding z_def u_def e_def using x by (rule scaled_ge_2_52)
  have wz: "z \<le> of_int m * 2 powi j"
    using le u unfolding y xz by (simp only: mult_le_cancel_right_pos)
  have "of_int (rhe z) \<le> of_int m * (2::rat) powi j"
  proof (cases "0 \<le> j")
    case True
    have "z \<le> of_int (m * 2 ^ nat j)" using wz by (simp only: mant_int[OF True])
    then have "rhe z \<le> m * 2 ^ nat j" by (rule rhe_le)
    then have "(of_int (rhe z) :: rat) \<le> of_int (m * 2 ^ nat j)"
      by (simp only: of_int_le_iff)
    then show ?thesis by (simp only: mant_int[OF True])
  next
    case False
    then have s: "of_int m * (2::rat) powi j \<le> 2 ^ 52" using m by (intro mant_small) simp_all
    then have "z \<le> of_int (2 ^ 52)" using wz by simp
    then have "rhe z \<le> 2 ^ 52" by (rule rhe_le)
    then have "(of_int (rhe z) :: rat) \<le> of_int (2 ^ 52)" by (simp only: of_int_le_iff)
    then have "(of_int (rhe z) :: rat) \<le> z" using z52 by simp
    then show ?thesis using wz by simp
  qed
  then have "of_int (rhe z) * u \<le> (of_int m * 2 powi j) * u"
    using u by (simp only: mult_le_cancel_right_pos)
  then show ?thesis unfolding y fl_pos_def Let_def z_def u_def e_def .
qed

lemma fl_pos_pos:
  assumes "0 < x"
  shows "0 < fl_pos x"
proof -
  have "of_int 1 * 2 powi (ilog2 x) \<le> fl_pos x"
    using assms by (intro fl_pos_ge) (simp_all add: ilog2_lower)
  moreover have "(0::rat) < 2 powi (ilog2 x)" by (simp add: zero_less_power_int)
  ultimately show ?thesis by linarith
qed

lemma fl_ge:
  assumes m: "\<bar>m\<bar> \<le> 2 ^ 53" and le: "of_int m * 2 powi k \<le> x"
  shows "of_int m * 2 powi k \<le> fl x"
proof -
  have p: "(0::rat) < 2 powi k" by (simp add: zero_less_power_int)
  consider "x = 0" | "0 < x" | "x < 0" by linarith
  then show ?thesis
  proof cases
    case 1
    then show ?thesis using le by (simp add: fl_def)
  next
    case 2
    show ?thesis
    proof (cases "0 < m")
      case True
      then show ?thesis using 2 m le by (simp add: fl_def fl_pos_ge)
    next
      case False
      then have "of_int m * (2::rat) powi k \<le> 0" using p by (simp add: mult_le_0_iff)
      then show ?thesis using 2 fl_pos_pos[OF 2] by (simp add: fl_def)
    qed
  next
    case 3
    have "- x \<le> of_int (- m) * 2 powi k" using le by simp
    then have "fl_pos (- x) \<le> of_int (- m) * 2 powi k"
      using 3 m by (intro fl_pos_le) simp_all
    then show ?thesis using 3 by (simp add: fl_def)
  qed
qed

lemma fl_le:
  assumes m: "\<bar>m\<bar> \<le> 2 ^ 53" and le: "x \<le> of_int m * 2 powi k"
  shows "fl x \<le> of_int m * 2 powi k"
proof -
  have p: "(0::rat) < 2 powi k" by (simp add: zero_less_power_int)
  consider "x = 0" | "0 < x" | "x < 0" by linarith
  then show ?thesis
  proof cases
    case 1
    then show ?thesis using le by (simp add: fl_def)
  next
    case 2
    then show ?thesis using m le by (simp add: fl_def fl_pos_le)
  next
    case 3
    show ?thesis
    proof (cases "m < 0")
      case True
      have "of_int (- m) * 2 powi k \<le> - x" using le by simp
      then have "of_int (- m) * 2 powi k \<le> fl_pos (- x)"
        using 3 m by (intro fl_pos_ge) simp_all
      then show ?thesis using 3 by (simp add: fl_def)
    next
      case False
      then have "0 \<le> of_int m * (2::rat) powi k" using p by simp
      then show ?thesis using 3 fl_pos_pos[of "- x"] by (simp add: fl_def)
    qed
  qed
qed

lemma fl_exact: "\<bar>m\<bar> \<le> 2 ^ 53 \<Longrightarrow> fl (of_int m * 2 powi k) = of_int m * 2 powi k"
  by (intro antisym fl_le fl_ge) simp_all

lemma fl_of_int: "\<bar>m\<bar> \<le> 2 ^ 53 \<Longrightarrow> fl (of_int m) = of_int m"
  using fl_exact[of m 0] by simp

lemma fl_pos_binade:
  assumes "2 powi e \<le> x" "x < 2 powi (e + 1)"
  shows "fl_pos x = of_int (rhe (x / 2 powi (e - 52))) * 2 powi (e - 52)"
  unfolding fl_pos_def Let_def ilog2_unique[OF assms] ..


section \<open>Delta engine (src/delta.ts)\<close>

text \<open>
  Strings are lists of code units; \<open>String.prototype.replace\<close> with a global
  one-character class maps over the code units.  \<open>Date.now()\<close> is a parameter
  \<open>now\<close> of every function that reads the clock.
\<close>

definition idChars :: "char set" where
  "idChars = set ''abcdefghijklmnopqrstuvwxyzABCDEFGHIJKLMNOPQRSTUVWXYZ0123456789_.-''"

definition getDocumentId :: "string \<Rightarrow> string" where
  "getDocumentId p =
     map (\<lambda>c. if c \<in> idChars then c else CHR ''_'')
       (map (\<lambda>c. if c = CHR ''/'' \<or> c = CHR 0x5C then CHR ''_'' else c) p)"

text \<open>
  \<open>retryCount\<close> is a plain object, declared \<open>Record<string, number>\<close>: a finite map of
  its own keys, read through \<open>Object.prototype\<close>.  A number is a finite double held as
  \<open>rat\<close>.  The loop of \<open>markFilesFailed\<close> can also store a string, so a value is a
  number or a string.
\<close>

datatype RetryValue = RNum rat | RStr string

record PartialSync =
  failedFiles :: "string list"
  retryCount :: "string \<rightharpoonup> RetryValue"
  lastFailure :: int

datatype VerificationStatus = pending | verified | inconsistent

record Inconsistencies =
  missingInChroma :: "string list"
  extraInChroma :: "string list"
  lastChecked :: int

record ChromaState =
  lastVerification :: int
  verificationStatus :: VerificationStatus
  inconsistencies :: "Inconsistencies option"

record FileMetadata =
  fm_path :: string
  fm_hash :: string
  fm_mtime :: int
  fm_size :: int

record FileState =
  files :: "string \<rightharpoonup> FileMetadata"
  lastSync :: int
  version :: int
  partialSync :: "PartialSync option"
  chromaState :: "ChromaState option"

text \<open>
  \<open>[...new Set(xs)]\<close>: a JavaScript \<open>Set\<close> keeps insertion order and ignores a
  value it already holds.
\<close>

definition Set_add :: "'a list \<Rightarrow> 'a \<Rightarrow> 'a list" where
  "Set_add s x = (if x \<in> set s then s else s @ [x])"

definition new_Set :: "'a list \<Rightarrow> 'a list" where
  "new_Set xs = fold (\<lambda>x s. Set_add s x) xs []"

text \<open>
  The members every plain object inherits from \<open>Object.prototype\<close>, taken as the language
  defines it: eleven functions and the accessor \<open>__proto__\<close>.  The text of a built-in
  function is the one V8 prints.
\<close>

definition prototypeFunctions :: "string list" where
  "prototypeFunctions =
     [''constructor'', ''hasOwnProperty'', ''isPrototypeOf'', ''propertyIsEnumerable'',
      ''toLocaleString'', ''toString'', ''valueOf'', ''__defineGetter__'',
      ''__defineSetter__'', ''__lookupGetter__'', ''__lookupSetter__'']"

definition functionText :: "string \<Rightarrow> string" where
  "functionText key =
     ''function '' @ (if key = ''constructor'' then ''Object'' else key)
       @ ''() { [native code] }''"

text \<open>
  \<open>obj[key]\<close>: the own value, else the inherited member, else \<open>undefined\<close> (\<open>None\<close>).
  An inherited function or object is truthy and \<open>+\<close> turns it into its text, which is
  never empty, so it is held as that text; the accessor \<open>__proto__\<close> returns
  \<open>Object.prototype\<close>.
\<close>

definition getProperty :: "(string \<rightharpoonup> RetryValue) \<Rightarrow> string \<Rightarrow> RetryValue option" where
  "getProperty obj key =
     (case obj key of
        Some v \<Rightarrow> Some v
      | None \<Rightarrow>
          (if key = ''__proto__'' then Some (RStr ''[object Object]'')
           else if key \<in> set prototypeFunctions then Some (RStr (functionText key))
           else None))"

text \<open>
  \<open>obj[key] = v\<close> for a number or a string \<open>v\<close>: an own data property.  Without an
  own \<open>__proto__\<close> the assignment runs the inherited setter, which ignores a value
  that is not an object.
\<close>

definition setProperty ::
  "(string \<rightharpoonup> RetryValue) \<Rightarrow> string \<Rightarrow> RetryValue \<Rightarrow> (string \<rightharpoonup> RetryValue)" where
  "setProperty obj key v =
     (if obj key = None \<and> key = ''__proto__'' then obj else obj(key \<mapsto> v))"

fun isTruthy :: "RetryValue \<Rightarrow> bool" where
  "isTruthy (RNum x) = (x \<noteq> 0)"
| "isTruthy (RStr s) = (s \<noteq> [])"

text \<open>\<open>v + 1\<close>: addition of doubles, or concatenation with \<open>"1"\<close>.\<close>

fun plus1 :: "RetryValue \<Rightarrow> RetryValue" where
  "plus1 (RNum x) = RNum (fl (x + 1))"
| "plus1 (RStr s) = RStr (s @ ''1'')"

text \<open>\<open>updatedRetryCount[file] = (updatedRetryCount[file] || 0) + 1\<close>.\<close>

definition bumpRetry ::
  "(string \<rightharpoonup> RetryValue) \<Rightarrow> string \<Rightarrow> (string \<rightharpoonup> RetryValue)" where
  "bumpRetry updatedRetryCount file =
     setProperty updatedRetryCount file
       (plus1 (case getProperty updatedRetryCount file of
                 None \<Rightarrow> RNum 0
               | Some v \<Rightarrow> if isTruthy v then v else RNum 0))"

definition currentPartialSync :: "FileState \<Rightarrow> int \<Rightarrow> PartialSync" where
  "currentPartialSync state now =
     (case partialSync state of
        Some ps \<Rightarrow> ps
      | None \<Rightarrow> \<lparr>failedFiles = [], retryCount = Map.empty, lastFailure = now\<rparr>)"

definition markFilesFailed :: "FileState \<Rightarrow> string list \<Rightarrow> int \<Rightarrow> FileState" where
  "markFilesFailed state failed now =
     (let cur = currentPartialSync state now;
          updatedFailedFiles = new_Set (failedFiles cur @ failed);
          updatedRetryCount = fold (\<lambda>file m. bumpRetry m file) failed (retryCount cur)
      in state\<lparr>partialSync :=
           Some \<lparr>failedFiles = updatedFailedFiles, retryCount = updatedRetryCount,
                 lastFailure = now\<rparr>\<rparr>)"

definition markFilesSucceeded :: "FileState \<Rightarrow> string list \<Rightarrow> FileState" where
  "markFilesSucceeded state succeeded =
     (case partialSync state of
        None \<Rightarrow> state
      | Some ps \<Rightarrow>
          (let remainingFailedFiles = filter (\<lambda>file. file \<notin> set succeeded) (failedFiles ps);
               updatedRetryCount = fold (\<lambda>file m. m(file := None)) succeeded (retryCount ps)
           in state\<lparr>partialSync :=
                (if length remainingFailedFiles > 0
                 then Some (ps\<lparr>failedFiles := remainingFailedFiles,
                              retryCount := updatedRetryCount\<rparr>)
                 else None)\<rparr>))"

definition needsVerification :: "FileState \<Rightarrow> int \<Rightarrow> bool" where
  "needsVerification state now =
     (case chromaState state of
        None \<Rightarrow> True
      | Some cs \<Rightarrow>
          (let hoursSinceVerification = fl (of_int (now - lastVerification cs) / (1000 * 60 * 60))
           in hoursSinceVerification \<ge> 24))"

text \<open>Fixture of the tests: \<open>{ files: {}, lastSync, version: 1 }\<close>.\<close>

definition emptyState :: FileState where
  "emptyState = \<lparr>files = Map.empty, lastSync = 0, version = 1,
                  partialSync = None, chromaState = None\<rparr>"

subsection \<open>Document ids\<close>

text \<open>The characters \<open>getDocumentId\<close> leaves as they are and does not produce itself.\<close>

definition keptChars :: "char set" where
  "keptChars = set ''abcdefghijklmnopqrstuvwxyzABCDEFGHIJKLMNOPQRSTUVWXYZ0123456789.-''"

lemma idChars_kept: "idChars = insert CHR ''_'' keptChars"
  by (auto simp: idChars_def keptChars_def)

lemma kept_not_special: "c \<in> keptChars \<Longrightarrow> c \<noteq> CHR ''/'' \<and> c \<noteq> CHR 0x5C \<and> c \<noteq> CHR ''_''"
  by (auto simp: keptChars_def)

lemma sanitize_char:
  "(if (if c = CHR ''/'' \<or> c = CHR 0x5C then CHR ''_'' else c) \<in> idChars
    then (if c = CHR ''/'' \<or> c = CHR 0x5C then CHR ''_'' else c) else CHR ''_'')
   = (if c \<in> keptChars then c else CHR ''_'')"
  using kept_not_special[of c] by (auto simp: idChars_kept)

lemma getDocumentId_map: "getDocumentId p = map (\<lambda>c. if c \<in> keptChars then c else CHR ''_'') p"
  unfolding getDocumentId_def map_map comp_def sanitize_char ..

lemma sanitized_eq_iff:
  "((if c \<in> keptChars then c else CHR ''_'') = (if d \<in> keptChars then d else CHR ''_''))
     \<longleftrightarrow> (c = d \<or> (c \<notin> keptChars \<and> d \<notin> keptChars))"
  using kept_not_special[of c] kept_not_special[of d] by auto

lemma map_eq_iff_pointwise:
  "map f xs = map f ys \<longleftrightarrow> length xs = length ys \<and> (\<forall>i < length xs. f (xs ! i) = f (ys ! i))"
  by (auto simp: list_eq_iff_nth_eq)

text \<open>
  Claim C1.  The claim: the document id is a deterministic, collision-resistant
  function of the path, so that distinct paths get distinct ids.  The id is a function
  of the path alone, but it is not injective: every character outside
  \<open>[a-zA-Z0-9.-]\<close> becomes an underscore.  What holds: two paths get the same id
  exactly when they have the same length and differ only at positions where both hold
  a character outside \<open>[a-zA-Z0-9.-]\<close>; in particular distinct paths made of
  characters of \<open>[a-zA-Z0-9.-]\<close> only get distinct ids.
\<close>

theorem getDocumentId_collisions:
  "(getDocumentId p1 = getDocumentId p2 \<longleftrightarrow>
      length p1 = length p2 \<and>
      (\<forall>i < length p1. p1 ! i = p2 ! i \<or> (p1 ! i \<notin> keptChars \<and> p2 ! i \<notin> keptChars)))
   \<and> (set p1 \<subseteq> keptChars \<and> set p2 \<subseteq> keptChars \<and> p1 \<noteq> p2
        \<longrightarrow> getDocumentId p1 \<noteq> getDocumentId p2)"
proof -
  have 1: "getDocumentId p1 = getDocumentId p2 \<longleftrightarrow>
      length p1 = length p2 \<and>
      (\<forall>i < length p1. p1 ! i = p2 ! i \<or> (p1 ! i \<notin> keptChars \<and> p2 ! i \<notin> keptChars))"
    unfolding getDocumentId_map map_eq_iff_pointwise
    by (simp only: sanitized_eq_iff)
  have 2: "getDocumentId p = p" if "set p \<subseteq> keptChars" for p
    unfolding getDocumentId_map using that by (induction p) auto
  show ?thesis using 1 2 by auto
qed

theorem getDocumentId_collisions_witness:
  "getDocumentId ''notes/a.md'' \<noteq> getDocumentId ''notes/b.md''
   \<and> getDocumentId ''inbox.todo-1.md'' \<noteq> getDocumentId ''inbox.todo-2.md''"
proof -
  have k: "set ''inbox.todo-1.md'' \<subseteq> keptChars" "set ''inbox.todo-2.md'' \<subseteq> keptChars"
    by (simp_all add: keptChars_def)
  have ne: "''inbox.todo-1.md'' \<noteq> ''inbox.todo-2.md''" by simp
  have "getDocumentId ''notes/a.md'' \<noteq> getDocumentId ''notes/b.md''"
  proof
    assume "getDocumentId ''notes/a.md'' = getDocumentId ''notes/b.md''"
    then have "\<forall>i < length ''notes/a.md''. ''notes/a.md'' ! i = ''notes/b.md'' ! i
                 \<or> (''notes/a.md'' ! i \<notin> keptChars \<and> ''notes/b.md'' ! i \<notin> keptChars)"
      using getDocumentId_collisions[of "''notes/a.md''" "''notes/b.md''"] by blast
    from this[rule_format, of 6]
    have "''notes/a.md'' ! 6 = ''notes/b.md'' ! 6
                 \<or> (''notes/a.md'' ! 6 \<notin> keptChars \<and> ''notes/b.md'' ! 6 \<notin> keptChars)"
      by simp
    then show False by (simp add: keptChars_def)
  qed
  moreover have "getDocumentId ''inbox.todo-1.md'' \<noteq> getDocumentId ''inbox.todo-2.md''"
    by (rule getDocumentId_collisions[THEN conjunct2, rule_format,
              OF conjI[OF k(1) conjI[OF k(2) ne]]])
  ultimately show ?thesis by simp
qed

text \<open>
  The paths \<open>notes/a b.md\<close> and \<open>notes_a_b.md\<close> are distinct and share the id
  \<open>notes_a_b.md\<close>.
\<close>

theorem getDocumentId_collision_counterexample:
  "''notes/a b.md'' \<noteq> ''notes_a_b.md'' \<and> getDocumentId ''notes/a b.md'' = getDocumentId ''notes_a_b.md''"
  by (simp add: getDocumentId_def idChars_def)


subsection \<open>Retry bookkeeping\<close>

text \<open>
  The count a path has before a call: \<open>n\<close> when the record holds the number \<open>n\<close> for
  it, and 0 when the record holds nothing for it and nothing is inherited under its name.
\<close>

definition hasCount :: "(string \<rightharpoonup> RetryValue) \<Rightarrow> string \<Rightarrow> nat \<Rightarrow> bool" where
  "hasCount m p n =
     (case m p of
        Some v \<Rightarrow> v = RNum (of_nat n)
      | None \<Rightarrow> n = 0 \<and> getProperty m p = None)"

lemma Set_add_set: "set (Set_add s x) = insert x (set s)"
  by (auto simp: Set_add_def)

lemma Set_add_distinct: "distinct s \<Longrightarrow> distinct (Set_add s x)"
  by (auto simp: Set_add_def)

lemma fold_Set_add_set: "set (fold (\<lambda>x s. Set_add s x) xs s) = set s \<union> set xs"
  by (induction xs arbitrary: s) (auto simp: Set_add_set)

lemma fold_Set_add_distinct: "distinct s \<Longrightarrow> distinct (fold (\<lambda>x s. Set_add s x) xs s)"
  by (induction xs arbitrary: s) (auto simp: Set_add_distinct)

lemma new_Set_set: "set (new_Set xs) = set xs"
  by (simp add: new_Set_def fold_Set_add_set)

lemma new_Set_distinct: "distinct (new_Set xs)"
  by (simp add: new_Set_def fold_Set_add_distinct)

lemma fl_of_nat_Suc: "n < 2 ^ 53 \<Longrightarrow> fl (of_nat n + 1) = of_nat (n + 1)"
proof -
  assume a: "n < 2 ^ 53"
  have "\<bar>int (n + 1)\<bar> \<le> 2 ^ 53" using a by simp
  then have "fl (of_int (int (n + 1))) = of_int (int (n + 1))" by (rule fl_of_int)
  then show ?thesis by (simp add: add.commute)
qed

lemma bumpRetry_other: "p \<noteq> f \<Longrightarrow> bumpRetry m f p = m p"
  by (simp add: bumpRetry_def setProperty_def)

lemma getProperty_bumpRetry_other:
  "p \<noteq> f \<Longrightarrow> getProperty (bumpRetry m f) p = getProperty m p"
  by (simp add: getProperty_def bumpRetry_other)

lemma hasCount_bumpRetry_other: "p \<noteq> f \<Longrightarrow> hasCount (bumpRetry m f) p n = hasCount m p n"
  by (simp add: hasCount_def getProperty_bumpRetry_other bumpRetry_other cong: option.case_cong)

lemma bumpRetry_counted:
  assumes "hasCount m f n" "n < 2 ^ 53"
  shows "bumpRetry m f f = Some (RNum (of_nat (n + 1)))"
proof (cases "m f")
  case None
  then have "n = 0" "getProperty m f = None" using assms(1) by (simp_all add: hasCount_def)
  moreover have "f \<noteq> ''__proto__''" using \<open>getProperty m f = None\<close> None
    by (auto simp: getProperty_def split: if_splits)
  moreover have "fl 1 = 1" using fl_of_int[of 1] by simp
  ultimately show ?thesis by (simp add: bumpRetry_def setProperty_def)
next
  case (Some v)
  then have v: "v = RNum (of_nat n)" using assms(1) by (simp add: hasCount_def)
  have g: "getProperty m f = Some (RNum (of_nat n))" using Some v by (simp add: getProperty_def)
  have "fl (of_nat n + 1) = of_nat (n + 1)" using assms(2) by (rule fl_of_nat_Suc)
  moreover have "fl 1 = 1" using fl_of_int[of 1] by simp
  ultimately show ?thesis using Some by (simp add: bumpRetry_def setProperty_def g)
qed

lemma hasCount_bumpRetry:
  assumes "hasCount m f n" "n < 2 ^ 53"
  shows "hasCount (bumpRetry m f) f (n + 1)"
  using bumpRetry_counted[OF assms] by (simp add: hasCount_def)

lemma fold_bumpRetry_other:
  "p \<notin> set fs \<Longrightarrow> fold (\<lambda>file m. bumpRetry m file) fs m p = m p"
  by (induction fs arbitrary: m) (auto simp: bumpRetry_other)

lemma fold_bumpRetry_counted:
  "hasCount m p n \<Longrightarrow> n + count_list fs p \<le> 2 ^ 53
     \<Longrightarrow> hasCount (fold (\<lambda>file m. bumpRetry m file) fs m) p (n + count_list fs p)"
proof (induction fs arbitrary: m n)
  case Nil
  then show ?case by simp
next
  case (Cons f fs)
  show ?case
  proof (cases "f = p")
    case True
    have n: "n < 2 ^ 53" using Cons.prems(2) True by simp
    have h: "hasCount (bumpRetry m f) p (n + 1)"
      using hasCount_bumpRetry[of m p n] Cons.prems(1) n True by simp
    have "hasCount (fold (\<lambda>file m. bumpRetry m file) fs (bumpRetry m f)) p
            ((n + 1) + count_list fs p)"
      using Cons.prems(2) True by (intro Cons.IH h) simp
    then show ?thesis using True by (simp add: add.assoc add.commute)
  next
    case False
    have h: "hasCount (bumpRetry m f) p n"
      using Cons.prems(1) False by (simp add: hasCount_bumpRetry_other)
    have "hasCount (fold (\<lambda>file m. bumpRetry m file) fs (bumpRetry m f)) p
            (n + count_list fs p)"
      using Cons.prems(2) False by (intro Cons.IH h) simp
    then show ?thesis using False by simp
  qed
qed

lemma fold_bumpRetry_value:
  assumes "p \<in> set fs" "hasCount m p n" "n + count_list fs p \<le> 2 ^ 53"
  shows "fold (\<lambda>file m. bumpRetry m file) fs m p = Some (RNum (of_nat (n + count_list fs p)))"
proof -
  have "count_list fs p \<noteq> 0" using assms(1) by (simp add: count_list_0_iff)
  then show ?thesis
    using fold_bumpRetry_counted[OF assms(2,3)] by (auto simp: hasCount_def split: option.splits)
qed

lemma fl_2_53_plus_1: "fl (2 ^ 53 + 1) = 2 ^ 53"
proof -
  let ?x = "9007199254740993 :: rat"
  have b: "2 powi 53 \<le> ?x" "?x < 2 powi (53 + 1)" by simp_all
  have f: "\<lfloor>?x / 2\<rfloor> = 4503599627370496" by (rule floor_unique) simp_all
  have r: "rhe (?x / 2) = 4503599627370496"
    unfolding rhe_def Let_def f by simp
  have "fl_pos ?x = of_int (rhe (?x / 2 powi (53 - 52))) * 2 powi (53 - 52)"
    by (rule fl_pos_binade[OF b])
  then have "fl_pos ?x = 9007199254740992" by (simp add: r)
  then show ?thesis by (simp add: fl_def)
qed

lemma plus1_saturates: "plus1 (RNum (2 ^ 53)) = RNum (2 ^ 53)"
  using fl_2_53_plus_1 by simp

lemma distinct_count_list_1: "distinct xs \<Longrightarrow> x \<in> set xs \<Longrightarrow> count_list xs x = 1"
  by (induction xs) auto

lemma fold_delete:
  "fold (\<lambda>file m. m(file := None)) fs m p = (if p \<in> set fs then None else m p)"
  by (induction fs arbitrary: m) auto

lemma markFilesFailed_partialSync:
  "partialSync (markFilesFailed state paths now) =
     Some \<lparr>failedFiles = new_Set (failedFiles (currentPartialSync state now) @ paths),
           retryCount = fold (\<lambda>file m. bumpRetry m file) paths
                          (retryCount (currentPartialSync state now)),
           lastFailure = now\<rparr>"
  by (simp add: markFilesFailed_def Let_def)

lemma markFilesSucceeded_partialSync:
  assumes "partialSync state = Some ps"
  shows "partialSync (markFilesSucceeded state paths) =
             (if set (failedFiles ps) \<subseteq> set paths then None
              else Some (ps\<lparr>failedFiles := filter (\<lambda>f. f \<notin> set paths) (failedFiles ps),
                             retryCount := (\<lambda>p. if p \<in> set paths then None else retryCount ps p)\<rparr>))"
proof -
  have e: "(filter (\<lambda>f. f \<notin> set paths) (failedFiles ps) = []) = (set (failedFiles ps) \<subseteq> set paths)"
    by (auto simp: filter_empty_conv)
  have r: "fold (\<lambda>file m. m(file := None)) paths (retryCount ps) = (\<lambda>p. if p \<in> set paths then None else retryCount ps p)"
    by (rule ext) (simp add: fold_delete)
  show ?thesis
    unfolding markFilesSucceeded_def Let_def using assms e by (simp add: r)
qed

text \<open>
  A path that names an inherited member and has no entry of its own is not counted:
  the loop stores the text of the member followed by \<open>1\<close>, and nothing at all for
  \<open>__proto__\<close>.  A count of \<open>2^53\<close> stays where it is.
\<close>

lemma markFilesFailed_inherited_name:
  "retryCount (the (partialSync (markFilesFailed emptyState [''constructor''] 5))) ''constructor''
     = Some (RStr ''function Object() { [native code] }1'')
   \<and> retryCount (the (partialSync (markFilesFailed emptyState [''__proto__''] 5))) ''__proto__''
     = None"
  by code_simp

text \<open>
  Claim C2.  The claim: \<open>markFilesFailed\<close> unions the paths into
  \<open>failedFiles\<close> without duplicates and increments each named path's retry count by
  exactly 1 per call, stamping \<open>lastFailure\<close>; \<open>markFilesSucceeded\<close> removes the
  paths and their counts, and the record becomes absent once \<open>failedFiles\<close> is empty.
  The loop over \<open>failedFiles\<close> increments once per list entry, so a path named
  \<open>k\<close> times in one call has its count raised by \<open>k\<close>; the increment is exactly 1
  when the paths of the call are distinct.  This is stated for a path whose count
  before the call is a natural number \<open>n\<close> in the sense of \<open>hasCount\<close> and whose count
  after the call is at most \<open>2^53\<close>; the entries of the other paths are left as they
  are.  The rest holds as claimed.
\<close>

theorem markFiles_bookkeeping:
  "(\<exists>ps'. partialSync (markFilesFailed state paths now) = Some ps'
           \<and> set (failedFiles ps') = set (failedFiles (currentPartialSync state now)) \<union> set paths
           \<and> distinct (failedFiles ps')
           \<and> (\<forall>p. p \<notin> set paths \<longrightarrow>
                  retryCount ps' p = retryCount (currentPartialSync state now) p)
           \<and> (\<forall>p n. p \<in> set paths
                    \<and> hasCount (retryCount (currentPartialSync state now)) p n
                    \<and> n + count_list paths p \<le> 2 ^ 53 \<longrightarrow>
                  retryCount ps' p = Some (RNum (of_nat (n + count_list paths p))))
           \<and> (distinct paths \<longrightarrow>
                  (\<forall>p \<in> set paths. \<forall>n.
                      hasCount (retryCount (currentPartialSync state now)) p n \<and> n < 2 ^ 53 \<longrightarrow>
                      retryCount ps' p = Some (RNum (of_nat (n + 1)))))
           \<and> lastFailure ps' = now)
   \<and> (partialSync state = None \<longrightarrow> markFilesSucceeded state paths = state)
   \<and> (\<forall>ps. partialSync state = Some ps \<longrightarrow>
           partialSync (markFilesSucceeded state paths) =
             (if set (failedFiles ps) \<subseteq> set paths then None
              else Some (ps\<lparr>failedFiles := filter (\<lambda>f. f \<notin> set paths) (failedFiles ps),
                             retryCount := (\<lambda>p. if p \<in> set paths then None else retryCount ps p)\<rparr>)))"
proof (intro conjI allI impI)
  let ?cur = "currentPartialSync state now"
  let ?ps = "\<lparr>failedFiles = new_Set (failedFiles ?cur @ paths),
              retryCount = fold (\<lambda>file m. bumpRetry m file) paths (retryCount ?cur),
              lastFailure = now\<rparr>"
  have one: "retryCount ?ps p = Some (RNum (of_nat (n + 1)))"
    if "distinct paths" "p \<in> set paths" "hasCount (retryCount ?cur) p n" "n < 2 ^ 53" for p n
  proof -
    have c: "count_list paths p = 1" using that(1,2) by (rule distinct_count_list_1)
    have "n + count_list paths p \<le> 2 ^ 53" using that(4) c by simp
    then have "fold (\<lambda>file m. bumpRetry m file) paths (retryCount ?cur) p
                 = Some (RNum (of_nat (n + count_list paths p)))"
      using that(2,3) by (intro fold_bumpRetry_value)
    then show ?thesis using c by simp
  qed
  have A: "partialSync (markFilesFailed state paths now) = Some ?ps"
    by (rule markFilesFailed_partialSync)
  have B: "set (failedFiles ?ps) = set (failedFiles ?cur) \<union> set paths"
    by (simp add: new_Set_set)
  have C: "distinct (failedFiles ?ps)"
    by (simp add: new_Set_distinct)
  have D: "\<forall>p. p \<notin> set paths \<longrightarrow> retryCount ?ps p = retryCount ?cur p"
    by (simp add: fold_bumpRetry_other)
  have E: "\<forall>p n. p \<in> set paths \<and> hasCount (retryCount ?cur) p n
                    \<and> n + count_list paths p \<le> 2 ^ 53 \<longrightarrow>
                  retryCount ?ps p = Some (RNum (of_nat (n + count_list paths p)))"
  proof (intro allI impI)
    fix p n
    assume a: "p \<in> set paths \<and> hasCount (retryCount ?cur) p n
                 \<and> n + count_list paths p \<le> 2 ^ 53"
    have "fold (\<lambda>file m. bumpRetry m file) paths (retryCount ?cur) p
            = Some (RNum (of_nat (n + count_list paths p)))"
      using a by (intro fold_bumpRetry_value) simp_all
    then show "retryCount ?ps p = Some (RNum (of_nat (n + count_list paths p)))"
      by (simp only: PartialSync.select_convs)
  qed
  have F: "distinct paths \<longrightarrow>
             (\<forall>p \<in> set paths. \<forall>n. hasCount (retryCount ?cur) p n \<and> n < 2 ^ 53 \<longrightarrow>
                 retryCount ?ps p = Some (RNum (of_nat (n + 1))))"
    using one by blast
  have G: "lastFailure ?ps = now" by simp
  show "\<exists>ps'. partialSync (markFilesFailed state paths now) = Some ps'
           \<and> set (failedFiles ps') = set (failedFiles (currentPartialSync state now)) \<union> set paths
           \<and> distinct (failedFiles ps')
           \<and> (\<forall>p. p \<notin> set paths \<longrightarrow>
                  retryCount ps' p = retryCount (currentPartialSync state now) p)
           \<and> (\<forall>p n. p \<in> set paths
                    \<and> hasCount (retryCount (currentPartialSync state now)) p n
                    \<and> n + count_list paths p \<le> 2 ^ 53 \<longrightarrow>
                  retryCount ps' p = Some (RNum (of_nat (n + count_list paths p))))
           \<and> (distinct paths \<longrightarrow>
                  (\<forall>p \<in> set paths. \<forall>n.
                      hasCount (retryCount (currentPartialSync state now)) p n \<and> n < 2 ^ 53 \<longrightarrow>
                      retryCount ps' p = Some (RNum (of_nat (n + 1)))))
           \<and> lastFailure ps' = now"
    by (rule exI[of _ ?ps]) (intro conjI A B C D E F G)
next
  assume "partialSync state = None"
  then show "markFilesSucceeded state paths = state" by (simp add: markFilesSucceeded_def)
next
  fix ps assume "partialSync state = Some ps"
  then show "partialSync (markFilesSucceeded state paths) =
             (if set (failedFiles ps) \<subseteq> set paths then None
              else Some (ps\<lparr>failedFiles := filter (\<lambda>f. f \<notin> set paths) (failedFiles ps),
                             retryCount := (\<lambda>p. if p \<in> set paths then None else retryCount ps p)\<rparr>))"
    by (rule markFilesSucceeded_partialSync)
qed

theorem markFiles_bookkeeping_witness:
  "retryCount (the (partialSync (markFilesFailed emptyState [''file1.md''] 1))) ''file1.md''
     = Some (RNum 1)
   \<and> retryCount (the (partialSync
          (markFilesFailed (markFilesFailed emptyState [''file1.md''] 1) [''file1.md''] 2)))
        ''file1.md'' = Some (RNum 2)
   \<and> partialSync (markFilesSucceeded (markFilesFailed emptyState [''file1.md''] 1) [''file1.md''])
        = None
   \<and> markFilesSucceeded emptyState [''file1.md''] = emptyState"
proof -
  let ?s1 = "markFilesFailed emptyState [''file1.md''] 1"
  have n: "partialSync emptyState = None" by (simp add: emptyState_def)
  have c0: "currentPartialSync emptyState 1
              = \<lparr>failedFiles = [], retryCount = Map.empty, lastFailure = 1\<rparr>"
    by (simp add: currentPartialSync_def emptyState_def)
  have h0: "hasCount Map.empty ''file1.md'' 0"
    by (simp add: hasCount_def getProperty_def prototypeFunctions_def)
  from markFiles_bookkeeping[of emptyState "[''file1.md'']" 1]
  obtain ps1 where p1: "partialSync ?s1 = Some ps1"
    and f1: "set (failedFiles ps1) = {''file1.md''}"
    and a1: "\<forall>p n. p \<in> set [''file1.md''] \<and> hasCount Map.empty p n
                  \<and> n + count_list [''file1.md''] p \<le> 2 ^ 53 \<longrightarrow>
                retryCount ps1 p = Some (RNum (of_nat (n + count_list [''file1.md''] p)))"
    and s0: "markFilesSucceeded emptyState [''file1.md''] = emptyState"
    using n unfolding c0 by auto
  have r1: "retryCount ps1 ''file1.md'' = Some (RNum 1)"
    using a1[rule_format, of "''file1.md''" 0] h0 by simp
  have c1: "currentPartialSync ?s1 2 = ps1" by (simp add: currentPartialSync_def p1)
  have h1: "hasCount (retryCount ps1) ''file1.md'' 1" by (simp add: hasCount_def r1)
  from markFiles_bookkeeping[of ?s1 "[''file1.md'']" 2]
  obtain ps2 where p2: "partialSync (markFilesFailed ?s1 [''file1.md''] 2) = Some ps2"
    and a2: "\<forall>p n. p \<in> set [''file1.md''] \<and> hasCount (retryCount ps1) p n
                  \<and> n + count_list [''file1.md''] p \<le> 2 ^ 53 \<longrightarrow>
                retryCount ps2 p = Some (RNum (of_nat (n + count_list [''file1.md''] p)))"
    and s1: "partialSync (markFilesSucceeded ?s1 [''file1.md'']) = None"
    using p1 f1 unfolding c1 by auto
  have r2: "retryCount ps2 ''file1.md'' = Some (RNum 2)"
    using a2[rule_format, of "''file1.md''" 1] h1 by simp
  show ?thesis using p1 r1 p2 r2 s1 s0 by simp
qed

text \<open>
  One call that names \<open>a.md\<close> twice on a state with no partial sync leaves the retry
  count of \<open>a.md\<close> at 2, not 1.
\<close>

theorem markFilesFailed_repeat_counterexample:
  "partialSync (markFilesFailed emptyState [''a.md'', ''a.md''] 5) \<noteq> None
   \<and> failedFiles (the (partialSync (markFilesFailed emptyState [''a.md'', ''a.md''] 5))) = [''a.md'']
   \<and> retryCount (the (partialSync (markFilesFailed emptyState [''a.md'', ''a.md''] 5))) ''a.md''
       = Some (RNum 2)"
  by code_simp

subsection \<open>Verification freshness\<close>

lemma hours_ge_24_iff: "(24 \<le> fl (of_int d / (1000 * 60 * 60))) \<longleftrightarrow> 86400000 \<le> d"
proof
  assume a: "24 \<le> fl (of_int d / (1000 * 60 * 60))"
  show "86400000 \<le> d"
  proof (rule ccontr)
    assume "\<not> 86400000 \<le> d"
    then have "d \<le> 86399999" by simp
    then have "(of_int d :: rat) \<le> 86399999" by (metis of_int_le_iff of_int_numeral)
    then have "(of_int d :: rat) / (1000 * 60 * 60) \<le> 86399999 / (1000 * 60 * 60)"
      by (simp add: divide_right_mono)
    also have "\<dots> \<le> of_int 26388279066623 * 2 powi (- 40)"
      by (simp add: power_int_minus)
    finally have "fl (of_int d / (1000 * 60 * 60)) \<le> of_int 26388279066623 * 2 powi (- 40)"
      by (intro fl_le) simp_all
    also have "\<dots> < 24" by (simp add: power_int_minus)
    finally show False using a by simp
  qed
next
  assume "86400000 \<le> d"
  then have "(86400000 :: rat) \<le> of_int d" by (metis of_int_le_iff of_int_numeral)
  then have "of_int 24 * 2 powi 0 \<le> (of_int d :: rat) / (1000 * 60 * 60)" by simp
  then have "of_int 24 * 2 powi 0 \<le> fl (of_int d / (1000 * 60 * 60))"
    by (intro fl_ge) simp_all
  then show "24 \<le> fl (of_int d / (1000 * 60 * 60))" by simp
qed

text \<open>
  Claim C7.  The claim: \<open>needsVerification\<close> is true when no verification
  record exists or when the time since the last verification exceeds 24 hours, and
  false otherwise.  The comparison is \<open>hoursSinceVerification >= 24\<close>: the result is
  true when no record exists or when at least 24 hours (86400000 ms) have passed, and
  false otherwise; at exactly 24 hours it is true.
\<close>

theorem needsVerification_at_least_24_hours:
  "needsVerification state now \<longleftrightarrow>
     (case chromaState state of
        None \<Rightarrow> True
      | Some cs \<Rightarrow> 24 * 60 * 60 * 1000 \<le> now - lastVerification cs)"
proof (cases "chromaState state")
  case None
  then show ?thesis by (simp add: needsVerification_def)
next
  case (Some cs)
  have "needsVerification state now
          \<longleftrightarrow> 24 \<le> fl (of_int (now - lastVerification cs) / (1000 * 60 * 60))"
    unfolding needsVerification_def Let_def Some by (simp only: option.case)
  also have "\<dots> \<longleftrightarrow> 86400000 \<le> now - lastVerification cs" by (rule hours_ge_24_iff)
  finally show ?thesis using Some by simp
qed

text \<open>
  Exactly 24 hours after the last verification the elapsed time does not exceed 24
  hours, and \<open>needsVerification\<close> is true.
\<close>

theorem needsVerification_exactly_24_hours_counterexample:
  "needsVerification
     (emptyState\<lparr>chromaState := Some \<lparr>lastVerification = 1700000000000,
                                         verificationStatus = verified,
                                         inconsistencies = None\<rparr>\<rparr>)
     (1700000000000 + 24 * 60 * 60 * 1000)
   \<and> \<not> ((1700000000000 + 24 * 60 * 60 * 1000) - 1700000000000 > (24 * 60 * 60 * 1000 :: int))"
  by code_simp



section \<open>Document chunker (document-chunker.ts)\<close>

text \<open>
  The async generator \<open>chunkDocument\<close> is modelled by the list of the chunks it yields.
  Strings are lists of code units, of which the white space of \<open>\s\<close> and \<open>trim()\<close> is
  tab, line feed, vertical tab, form feed, carriage return, space and no-break space.
  A regular expression is modelled by a function that accepts the same strings; the
  split at \<open>/\n\s*\n/\<close> is \<open>splitBlank\<close>, which at a line feed whose following run of
  white space holds another line feed ends the piece and skips to the last line feed
  of that run.  The SHA-1 digest of node's \<open>crypto\<close> library is a parameter \<open>h\<close> of
  every function that hashes.  The \<open>headings\<close> breadcrumb of a chunk's metadata is left
  out: no property below reads it.
\<close>

record ChunkerOptions =
  maxLen :: int
  targetLen :: int
  overlap :: int

definition DEFAULT_OPTIONS :: ChunkerOptions where
  "DEFAULT_OPTIONS = \<lparr>maxLen = 1000, targetLen = 800, overlap = 200\<rparr>"

datatype Mime = Markdown | Text | Pdf

record SourceDocument =
  doc_id :: string
  mime :: Mime
  content :: string
  updatedAt :: int

record ChunkMeta =
  overlapWithPrev :: bool
  overlapWithNext :: bool
  meta_mime :: Mime
  order :: int
  meta_updatedAt :: int

record DocumentChunk =
  chunk_id :: string
  parentId :: string
  chunk_content :: string
  chunk_start :: int
  chunk_end :: int
  chunk_hash :: string
  meta :: ChunkMeta

datatype TokenType = T_code_fence | T_heading | T_list_item | T_paragraph | T_blank

record TokenChunk =
  tok_start :: int
  tok_end :: int
  tok_type :: TokenType
  tok_content :: string

subsection \<open>Strings\<close>

definition isSpace :: "char \<Rightarrow> bool" where
  "isSpace c \<longleftrightarrow> c \<in> {CHR 0x09, CHR 0x0A, CHR 0x0B, CHR 0x0C, CHR 0x0D, CHR 0x20, CHR 0xA0}"

definition isDigit :: "char \<Rightarrow> bool" where
  "isDigit c \<longleftrightarrow> c \<in> set ''0123456789''"

definition trim :: "string \<Rightarrow> string" where
  "trim s = rev (dropWhile isSpace (rev (dropWhile isSpace s)))"

fun split_nl :: "string \<Rightarrow> string list" where
  "split_nl [] = [[]]"
| "split_nl (c # cs) =
     (if c = CHR 0x0A then [] # split_nl cs
      else (case split_nl cs of [] \<Rightarrow> [[c]] | l # ls \<Rightarrow> (c # l) # ls))"

fun join_nl :: "string list \<Rightarrow> string" where
  "join_nl [] = []"
| "join_nl [x] = x"
| "join_nl (x # y # ys) = x @ CHR 0x0A # join_nl (y # ys)"

definition startsWith :: "string \<Rightarrow> string \<Rightarrow> bool" where
  "startsWith s p \<longleftrightarrow> take (length p) s = p"

definition sliceLast :: "nat \<Rightarrow> string \<Rightarrow> string" where
  "sliceLast n s = drop (length s - n) s"

fun splitBlank :: "string \<Rightarrow> nat \<Rightarrow> string \<Rightarrow> string list" where
  "splitBlank cur skip [] = [rev cur]"
| "splitBlank cur (Suc k) (c # cs) = splitBlank cur k cs"
| "splitBlank cur 0 (c # cs) =
     (if c = CHR 0x0A \<and> CHR 0x0A \<in> set (takeWhile isSpace cs)
      then rev cur #
           splitBlank [] (length (takeWhile isSpace cs)
                            - length (takeWhile (\<lambda>d. d \<noteq> CHR 0x0A) (rev (takeWhile isSpace cs)))) cs
      else splitBlank (c # cur) 0 cs)"

definition split_paragraphs :: "string \<Rightarrow> string list" where
  "split_paragraphs s = splitBlank [] 0 s"

subsection \<open>Line classes\<close>

definition isFence :: "string \<Rightarrow> bool" where
  "isFence t \<longleftrightarrow> startsWith t ''```''"

definition isHeading :: "string \<Rightarrow> bool" where
  "isHeading t \<longleftrightarrow>
     (let n = length (takeWhile (\<lambda>c. c = CHR ''#'') t)
      in 1 \<le> n \<and> n \<le> 6 \<and> (case drop n t of [] \<Rightarrow> False | c # _ \<Rightarrow> isSpace c))"

definition isBullet :: "string \<Rightarrow> bool" where
  "isBullet t \<longleftrightarrow>
     (case t of c # d # _ \<Rightarrow> c \<in> {CHR ''-'', CHR ''*'', CHR ''+''} \<and> isSpace d | _ \<Rightarrow> False)"

definition isOrdered :: "string \<Rightarrow> bool" where
  "isOrdered t \<longleftrightarrow>
     (let ds = takeWhile isDigit t
      in ds \<noteq> [] \<and> (case drop (length ds) t of c # d # _ \<Rightarrow> c = CHR ''.'' \<and> isSpace d
                                                | _ \<Rightarrow> False))"

subsection \<open>Tokenizer\<close>

fun takeCode :: "string list \<Rightarrow> string list" where
  "takeCode [] = []"
| "takeCode (l # ls) = (if isFence (trim l) then [l] else l # takeCode ls)"

definition extractCodeBlock :: "string \<Rightarrow> string list \<Rightarrow> string list" where
  "extractCodeBlock first rest = first # takeCode rest"

fun takeItem :: "string list \<Rightarrow> string list" where
  "takeItem [] = []"
| "takeItem (l # ls) =
     (if startsWith l ''  '' \<or> trim l = []
      then (if trim l = [] \<and>
               (case ls of [] \<Rightarrow> False | n # _ \<Rightarrow> isBullet (trim n) \<or> isOrdered (trim n))
            then [l]
            else l # takeItem ls)
      else [])"

definition extractListItem :: "string \<Rightarrow> string list \<Rightarrow> string list" where
  "extractListItem first rest = first # takeItem rest"

definition extractParagraph :: "string \<Rightarrow> string list \<Rightarrow> string list" where
  "extractParagraph first rest =
     first # takeWhile (\<lambda>l. trim l \<noteq> [] \<and>
                \<not> (isHeading (trim l) \<or> isBullet (trim l) \<or> isOrdered (trim l)
                   \<or> isFence (trim l))) rest"

definition mkToken :: "int \<Rightarrow> TokenType \<Rightarrow> string \<Rightarrow> TokenChunk" where
  "mkToken pos ty c = \<lparr>tok_start = pos, tok_end = pos + int (length c), tok_type = ty,
                       tok_content = c\<rparr>"

fun tokenizeLines :: "string list \<Rightarrow> int \<Rightarrow> TokenChunk list" where
  "tokenizeLines [] currentPos = []"
| "tokenizeLines (line # rest) currentPos =
     (if isFence (trim line) then
        (let codeLines = extractCodeBlock line rest;
             blockContent = join_nl codeLines
         in mkToken currentPos T_code_fence blockContent #
            tokenizeLines (drop (length codeLines - 1) rest)
              (currentPos + int (length blockContent) + 1))
      else if isHeading (trim line) then
        mkToken currentPos T_heading line #
        tokenizeLines rest (currentPos + int (length line) + 1)
      else if isBullet (trim line) \<or> isOrdered (trim line) then
        (let itemLines = extractListItem line rest;
             itemContent = join_nl itemLines
         in mkToken currentPos T_list_item itemContent #
            tokenizeLines (drop (length itemLines - 1) rest)
              (currentPos + int (length itemContent) + 1))
      else if trim line \<noteq> [] then
        (let paragraphLines = extractParagraph line rest;
             paragraphContent = join_nl paragraphLines
         in mkToken currentPos T_paragraph paragraphContent #
            tokenizeLines (drop (length paragraphLines - 1) rest)
              (currentPos + int (length paragraphContent) + 1))
      else
        mkToken currentPos T_blank line #
        tokenizeLines rest (currentPos + int (length line) + 1))"

definition tokenizeMarkdown :: "string \<Rightarrow> TokenChunk list" where
  "tokenizeMarkdown c = tokenizeLines (split_nl c) 0"

fun plainTokens :: "string list \<Rightarrow> int \<Rightarrow> TokenChunk list" where
  "plainTokens [] currentPos = []"
| "plainTokens (p # ps) currentPos =
     (if trim p \<noteq> [] then [mkToken currentPos T_paragraph p] else [])
     @ plainTokens ps (currentPos + int (length p) + 2)"

definition tokenizePlainText :: "string \<Rightarrow> TokenChunk list" where
  "tokenizePlainText c = plainTokens (split_paragraphs c) 0"

definition tokenizeDocument :: "SourceDocument \<Rightarrow> TokenChunk list" where
  "tokenizeDocument doc =
     (if mime doc = Markdown then tokenizeMarkdown (content doc)
      else tokenizePlainText (content doc))"

subsection \<open>Chunk assembly\<close>

fun lastBoundary :: "string \<Rightarrow> nat \<Rightarrow> nat \<Rightarrow> nat" where
  "lastBoundary [] pos lastMatch = lastMatch"
| "lastBoundary (c # cs) pos lastMatch =
     (if c \<in> {CHR ''.'', CHR ''!'', CHR ''?''} \<and> takeWhile isSpace cs \<noteq> []
      then lastBoundary cs (pos + 1) (pos + 1 + length (takeWhile isSpace cs))
      else lastBoundary cs (pos + 1) lastMatch)"

definition findSentenceBoundary :: "string \<Rightarrow> nat" where
  "findSentenceBoundary c =
     (let lastMatch = lastBoundary c 0 0 in if lastMatch \<noteq> 0 then lastMatch else length c)"

record Overlap =
  overlapContent :: string
  nextStart :: int
  nextBuffer :: "TokenChunk list"
  nextBufferLen :: int

fun overlapLoop :: "TokenChunk list \<Rightarrow> int \<Rightarrow> TokenChunk list \<Rightarrow> TokenChunk list" where
  "overlapLoop [] remainingOverlap overlapTokens = overlapTokens"
| "overlapLoop (token # earlier) remainingOverlap overlapTokens =
     (if remainingOverlap > 0 then
        (if int (length (tok_content token)) \<le> remainingOverlap then
           overlapLoop earlier (remainingOverlap - int (length (tok_content token)))
             (token # overlapTokens)
         else if tok_type token = T_code_fence \<or> tok_type token = T_heading then
           token # overlapTokens
         else
           (let partialContent = sliceLast (nat remainingOverlap) (tok_content token);
                sentenceBoundary = findSentenceBoundary partialContent
            in if sentenceBoundary > 0
               then token\<lparr>tok_content := sliceLast sentenceBoundary (tok_content token)\<rparr>
                    # overlapTokens
               else overlapTokens))
      else overlapTokens)"

definition prepareOverlap :: "ChunkerOptions \<Rightarrow> TokenChunk list \<Rightarrow> Overlap" where
  "prepareOverlap opts buffer =
     (if length buffer = 0 then
        \<lparr>overlapContent = [], nextStart = 0, nextBuffer = [], nextBufferLen = 0\<rparr>
      else
        (let overlapTokens = overlapLoop (rev buffer) (overlap opts) [];
             overlapC = join_nl (map tok_content overlapTokens);
             lastToken = last buffer
         in \<lparr>overlapContent = overlapC,
              nextStart = tok_end lastToken - int (length overlapC),
              nextBuffer = overlapTokens,
              nextBufferLen = int (length overlapC)\<rparr>))"

definition createSingleChunk :: "(string \<Rightarrow> string) \<Rightarrow> SourceDocument \<Rightarrow> DocumentChunk" where
  "createSingleChunk hashContent doc =
     \<lparr>chunk_id = doc_id doc @ '':'' @ take 12 (hashContent (content doc)),
      parentId = doc_id doc,
      chunk_content = content doc,
      chunk_start = 0,
      chunk_end = int (length (content doc)),
      chunk_hash = hashContent (content doc),
      meta = \<lparr>overlapWithPrev = False, overlapWithNext = False, meta_mime = mime doc,
               order = 0, meta_updatedAt = updatedAt doc\<rparr>\<rparr>"

definition finalizeChunk ::
  "(string \<Rightarrow> string) \<Rightarrow> SourceDocument \<Rightarrow> TokenChunk list \<Rightarrow> int \<Rightarrow> string
     \<Rightarrow> DocumentChunk option" where
  "finalizeChunk hashContent doc buffer start overlapC =
     (if length buffer = 0 then None
      else
        (let chunkContent = (if overlapC \<noteq> [] then overlapC @ [CHR 0x0A] else [])
                              @ join_nl (map tok_content buffer)
         in Some \<lparr>chunk_id = doc_id doc @ '':'' @ take 12 (hashContent chunkContent),
                   parentId = doc_id doc,
                   chunk_content = chunkContent,
                   chunk_start = start,
                   chunk_end = tok_end (last buffer),
                   chunk_hash = hashContent chunkContent,
                   meta = \<lparr>overlapWithPrev = (length overlapC > 0), overlapWithNext = True,
                            meta_mime = mime doc, order = 0,
                            meta_updatedAt = updatedAt doc\<rparr>\<rparr>))"

text \<open>What \<open>if (chunk) yield chunk\<close> adds to the output.\<close>

definition yield :: "'a option \<Rightarrow> 'a list" where
  "yield c = (case c of None \<Rightarrow> [] | Some x \<Rightarrow> [x])"

fun processTokens ::
  "(string \<Rightarrow> string) \<Rightarrow> ChunkerOptions \<Rightarrow> SourceDocument \<Rightarrow> TokenChunk list
     \<Rightarrow> TokenChunk list \<Rightarrow> int \<Rightarrow> string \<Rightarrow> int \<Rightarrow> DocumentChunk list" where
  "processTokens h opts doc [] buffer bufferLen overlapBuffer chunkStart =
     (if length buffer > 0 then yield (finalizeChunk h doc buffer chunkStart overlapBuffer)
      else [])"
| "processTokens h opts doc (token # tokens) buffer bufferLen overlapBuffer chunkStart =
     (let flushFirst = (bufferLen + int (length (tok_content token)) > maxLen opts
                        \<and> length buffer > 0);
          out1 = (if flushFirst then yield (finalizeChunk h doc buffer chunkStart overlapBuffer)
                  else []);
          result1 = prepareOverlap opts buffer;
          overlapBuffer1 = (if flushFirst then overlapContent result1 else overlapBuffer);
          chunkStart1 = (if flushFirst then nextStart result1 else chunkStart);
          buffer1 = (if flushFirst then nextBuffer result1 else buffer);
          bufferLen1 = (if flushFirst then nextBufferLen result1 else bufferLen);
          buffer2 = buffer1 @ [token];
          bufferLen2 = bufferLen1 + int (length (tok_content token))
      in if bufferLen2 \<ge> targetLen opts then
           (let result2 = prepareOverlap opts buffer2
            in out1 @ yield (finalizeChunk h doc buffer2 chunkStart1 overlapBuffer1)
               @ processTokens h opts doc tokens (nextBuffer result2) (nextBufferLen result2)
                   (overlapContent result2) (nextStart result2))
         else out1 @ processTokens h opts doc tokens buffer2 bufferLen2 overlapBuffer1 chunkStart1)"

fun setOrder :: "int \<Rightarrow> DocumentChunk list \<Rightarrow> DocumentChunk list" where
  "setOrder chunkIndex [] = []"
| "setOrder chunkIndex (chunk # chunks) =
     chunk\<lparr>meta := (meta chunk)\<lparr>order := chunkIndex\<rparr>\<rparr> # setOrder (chunkIndex + 1) chunks"

definition chunkDocument ::
  "(string \<Rightarrow> string) \<Rightarrow> ChunkerOptions \<Rightarrow> SourceDocument \<Rightarrow> DocumentChunk list" where
  "chunkDocument h opts doc =
     (if int (length (content doc)) \<le> maxLen opts then [createSingleChunk h doc]
      else setOrder 0 (processTokens h opts doc (tokenizeDocument doc) [] 0 [] 0))"

definition needsChunking :: "string \<Rightarrow> ChunkerOptions \<Rightarrow> bool" where
  "needsChunking c opts \<longleftrightarrow> int (length c) > maxLen opts"

text \<open>
  A sentence boundary as \<open>findSentenceBoundary\<close> looks for it: one of \<open>.\<close>, \<open>!\<close>, \<open>?\<close>
  followed by white space.
\<close>

fun hasBoundary :: "string \<Rightarrow> bool" where
  "hasBoundary (c # d # cs) =
     ((c \<in> {CHR ''.'', CHR ''!'', CHR ''?''} \<and> isSpace d) \<or> hasBoundary (d # cs))"
| "hasBoundary _ = False"

subsection \<open>Fixtures\<close>

text \<open>
  The options of the repository's chunker tests and a smaller configuration; the short
  document of the tests, an eleven-character paragraph, and a document of 101 line feeds.
\<close>

definition newlinesDoc :: "Mime \<Rightarrow> SourceDocument" where
  "newlinesDoc m = \<lparr>doc_id = ''test-doc'', mime = m,
                    content = replicate 101 (CHR 0x0A), updatedAt = 0\<rparr>"

definition testOptions :: ChunkerOptions where
  "testOptions = \<lparr>maxLen = 100, targetLen = 80, overlap = 20\<rparr>"

definition tinyOptions :: ChunkerOptions where
  "tinyOptions = \<lparr>maxLen = 10, targetLen = 8, overlap = 4\<rparr>"

definition tinyDoc :: SourceDocument where
  "tinyDoc = \<lparr>doc_id = ''test-doc'', mime = Text, content = ''abcdefghijk'', updatedAt = 0\<rparr>"


subsection \<open>The flushed buffers\<close>

text \<open>
  The buffers \<open>processTokens\<close> flushes, each with the chunk start and the pending overlap
  text it is flushed with: the arguments of its calls of \<open>finalizeChunk\<close>, in order.
\<close>

fun flushes ::
  "ChunkerOptions \<Rightarrow> TokenChunk list \<Rightarrow> TokenChunk list \<Rightarrow> int \<Rightarrow> string \<Rightarrow> int
     \<Rightarrow> (TokenChunk list \<times> int \<times> string) list" where
  "flushes opts [] buffer bufferLen overlapBuffer chunkStart =
     (if length buffer > 0 then [(buffer, chunkStart, overlapBuffer)] else [])"
| "flushes opts (token # tokens) buffer bufferLen overlapBuffer chunkStart =
     (let flushFirst = (bufferLen + int (length (tok_content token)) > maxLen opts
                        \<and> length buffer > 0);
          out1 = (if flushFirst then [(buffer, chunkStart, overlapBuffer)] else []);
          result1 = prepareOverlap opts buffer;
          overlapBuffer1 = (if flushFirst then overlapContent result1 else overlapBuffer);
          chunkStart1 = (if flushFirst then nextStart result1 else chunkStart);
          buffer1 = (if flushFirst then nextBuffer result1 else buffer);
          bufferLen1 = (if flushFirst then nextBufferLen result1 else bufferLen);
          buffer2 = buffer1 @ [token];
          bufferLen2 = bufferLen1 + int (length (tok_content token))
      in if bufferLen2 \<ge> targetLen opts then
           (let result2 = prepareOverlap opts buffer2
            in out1 @ [(buffer2, chunkStart1, overlapBuffer1)]
               @ flushes opts tokens (nextBuffer result2) (nextBufferLen result2)
                   (overlapContent result2) (nextStart result2))
         else out1 @ flushes opts tokens buffer2 bufferLen2 overlapBuffer1 chunkStart1)"

definition chunkOf ::
  "(string \<Rightarrow> string) \<Rightarrow> SourceDocument \<Rightarrow> TokenChunk list \<times> int \<times> string \<Rightarrow> DocumentChunk" where
  "chunkOf h doc f =
     (let chunkContent = (if snd (snd f) \<noteq> [] then snd (snd f) @ [CHR 0x0A] else [])
                           @ join_nl (map tok_content (fst f))
      in \<lparr>chunk_id = doc_id doc @ '':'' @ take 12 (h chunkContent),
          parentId = doc_id doc,
          chunk_content = chunkContent,
          chunk_start = fst (snd f),
          chunk_end = tok_end (last (fst f)),
          chunk_hash = h chunkContent,
          meta = \<lparr>overlapWithPrev = (length (snd (snd f)) > 0), overlapWithNext = True,
                   meta_mime = mime doc, order = 0,
                   meta_updatedAt = updatedAt doc\<rparr>\<rparr>)"

lemma yield_finalizeChunk:
  "buffer \<noteq> [] \<Longrightarrow> yield (finalizeChunk h doc buffer start ov) = [chunkOf h doc (buffer, start, ov)]"
  by (simp add: yield_def finalizeChunk_def chunkOf_def Let_def)

lemma processTokens_flushes:
  "processTokens h opts doc tokens buffer bufferLen ov start
     = map (chunkOf h doc) (flushes opts tokens buffer bufferLen ov start)"
proof (induction tokens arbitrary: buffer bufferLen ov start)
  case Nil
  show ?case by (simp add: yield_finalizeChunk)
next
  case (Cons token tokens)
  show ?case
    by (simp add: Let_def Cons.IH yield_finalizeChunk)
qed





lemma setOrder_length: "length (setOrder i cs) = length cs"
  by (induction cs arbitrary: i) auto

lemma setOrder_nth:
  "k < length cs \<Longrightarrow> setOrder i cs ! k = (cs ! k)\<lparr>meta := (meta (cs ! k))\<lparr>order := i + int k\<rparr>\<rparr>"
proof (induction cs arbitrary: i k)
  case Nil
  then show ?case by simp
next
  case (Cons c cs)
  then show ?case by (cases k) (auto simp: add.assoc)
qed

lemma setOrder_map: "map chunk_id (setOrder i cs) = map chunk_id cs"
  and setOrder_map_content: "map chunk_content (setOrder i cs) = map chunk_content cs"
  by (induction cs arbitrary: i) auto

subsection \<open>Properties of the chunk assembly\<close>

lemma chunkDocument_large:
  "int (length (content doc)) > maxLen opts \<Longrightarrow>
     chunkDocument h opts doc
       = setOrder 0 (map (chunkOf h doc) (flushes opts (tokenizeDocument doc) [] 0 [] 0))"
  by (simp add: chunkDocument_def processTokens_flushes)

lemma tinyDoc_chunks:
  "map (\<lambda>c. (chunk_content c, overlapWithPrev (meta c), overlapWithNext (meta c), order (meta c)))
     (chunkDocument h tinyOptions tinyDoc)
   = [(''abcdefghijk'', False, True, 0), (''hijk\<newline>hijk'', True, True, 1)]"
  by (simp add: chunkDocument_def tinyOptions_def tinyDoc_def tokenizeDocument_def
      tokenizePlainText_def split_paragraphs_def isSpace_def trim_def mkToken_def Let_def
      prepareOverlap_def sliceLast_def findSentenceBoundary_def yield_def finalizeChunk_def)

lemma newlines_markdown_one_chunk:
  "map chunk_content (chunkDocument h testOptions (newlinesDoc Markdown)) = [replicate 101 (CHR 0x0A)]"
  by code_simp

lemma newlines_text_no_chunk:
  "chunkDocument h testOptions (newlinesDoc Text) = []"
  by code_simp




lemma chunkOf_id: "chunk_id (chunkOf h doc f) = doc_id doc @ '':'' @ take 12 (h (chunk_content (chunkOf h doc f)))"
  by (simp add: chunkOf_def Let_def)

lemma chunkOf_content_indep: "chunk_content (chunkOf h doc f) = chunk_content (chunkOf h doc' f)"
  by (simp add: chunkOf_def Let_def)

lemma chunkOf_id_indep: "doc_id doc = doc_id doc' \<Longrightarrow> chunk_id (chunkOf h doc f) = chunk_id (chunkOf h doc' f)"
  by (simp add: chunkOf_def Let_def)

lemma chunkDocument_id_of_content:
  assumes "c \<in> set (chunkDocument h opts doc)"
  shows "chunk_id c = doc_id doc @ '':'' @ take 12 (h (chunk_content c))"
proof (cases "int (length (content doc)) \<le> maxLen opts")
  case True
  then show ?thesis using assms by (simp add: chunkDocument_def createSingleChunk_def)
next
  case False
  then have big: "int (length (content doc)) > maxLen opts" by simp
  let ?cs = "map (chunkOf h doc) (flushes opts (tokenizeDocument doc) [] 0 [] 0)"
  from assms obtain k where k: "k < length ?cs" and ck: "c = setOrder 0 ?cs ! k"
    unfolding chunkDocument_large[OF big] in_set_conv_nth setOrder_length by blast
  have "chunk_id (?cs ! k) = doc_id doc @ '':'' @ take 12 (h (chunk_content (?cs ! k)))"
    using k by (simp add: chunkOf_id)
  then show ?thesis unfolding ck setOrder_nth[OF k] by simp
qed

lemma chunkDocument_ids_indep:
  assumes "doc_id d = doc_id d'" "content d = content d'"
    and "mime d = Markdown \<longleftrightarrow> mime d' = Markdown"
  shows "map chunk_id (chunkDocument h opts d) = map chunk_id (chunkDocument h opts d')"
    and "map chunk_content (chunkDocument h opts d) = map chunk_content (chunkDocument h opts d')"
proof -
  have t: "tokenizeDocument d = tokenizeDocument d'"
    using assms by (simp add: tokenizeDocument_def)
  show "map chunk_id (chunkDocument h opts d) = map chunk_id (chunkDocument h opts d')"
    using assms(1,2)
    by (simp add: chunkDocument_def createSingleChunk_def processTokens_flushes setOrder_map t
          chunkOf_id_indep[OF assms(1)])
  show "map chunk_content (chunkDocument h opts d) = map chunk_content (chunkDocument h opts d')"
    using assms(1,2)
    by (simp add: chunkDocument_def createSingleChunk_def processTokens_flushes
          setOrder_map_content t chunkOf_content_indep[of h d _ d'])
qed

lemma takeWhile_nonempty: "takeWhile P xs \<noteq> [] \<longleftrightarrow> (case xs of [] \<Rightarrow> False | x # _ \<Rightarrow> P x)"
  by (cases xs) auto

lemma lastBoundary_none: "\<not> hasBoundary s \<Longrightarrow> lastBoundary s pos lastMatch = lastMatch"
proof (induction s arbitrary: pos)
  case Nil
  show ?case by simp
next
  case (Cons c cs)
  then show ?case by (cases cs) (auto simp: takeWhile_nonempty)
qed

lemma findSentenceBoundary_none: "\<not> hasBoundary s \<Longrightarrow> findSentenceBoundary s = length s"
  by (simp add: findSentenceBoundary_def lastBoundary_none)

lemma sliceLast_length: "n \<le> length s \<Longrightarrow> length (sliceLast n s) = n"
  by (simp add: sliceLast_def)

lemma overlapLoop_partial:
  assumes "0 < r" "r < int (length (tok_content token))"
    and "tok_type token \<noteq> T_code_fence" "tok_type token \<noteq> T_heading"
    and "\<not> hasBoundary (sliceLast (nat r) (tok_content token))"
  shows "overlapLoop (token # earlier) r acc
           = token\<lparr>tok_content := sliceLast (nat r) (tok_content token)\<rparr> # acc"
proof -
  have l: "length (sliceLast (nat r) (tok_content token)) = nat r"
    using assms(1,2) by (intro sliceLast_length) simp
  have "findSentenceBoundary (sliceLast (nat r) (tok_content token)) = nat r"
    using findSentenceBoundary_none[OF assms(5)] l by simp
  then show ?thesis using assms(1-4) by (simp add: Let_def)
qed




text \<open>
  Claim C4.  The claim: the sequence of chunk ids depends only on parentId,
  content and configuration, re-running reproduces the ids in order, and changing one
  character of content changes the id of every affected chunk.  The tokenizer is
  chosen by the document's mime class, so the ids depend on it as well; and an id
  holds only the first 12 hex digits of the content hash.  What holds: documents with
  the same id, the same content and the same answer to "is markdown" get the same
  chunk ids and chunk contents in the same order under the same options and hash
  (\<open>updatedAt\<close> plays no part); every chunk id is the parent id, a colon and the first
  12 characters of the hash of the chunk's content, so that two chunks of one parent
  have different ids exactly when these 12 characters differ.
\<close>

theorem chunk_ids_determined:
  "(doc_id d = doc_id d' \<and> content d = content d' \<and> (mime d = Markdown \<longleftrightarrow> mime d' = Markdown)
      \<longrightarrow> map chunk_id (chunkDocument h opts d) = map chunk_id (chunkDocument h opts d')
        \<and> map chunk_content (chunkDocument h opts d) = map chunk_content (chunkDocument h opts d'))
   \<and> (\<forall>c \<in> set (chunkDocument h opts d).
         chunk_id c = doc_id d @ '':'' @ take 12 (h (chunk_content c)))
   \<and> (\<forall>c \<in> set (chunkDocument h opts d). \<forall>c' \<in> set (chunkDocument h opts' d').
         doc_id d = doc_id d' \<longrightarrow>
           (chunk_id c = chunk_id c'
              \<longleftrightarrow> take 12 (h (chunk_content c)) = take 12 (h (chunk_content c'))))"
proof (intro conjI impI ballI)
  assume a: "doc_id d = doc_id d' \<and> content d = content d' \<and> (mime d = Markdown \<longleftrightarrow> mime d' = Markdown)"
  then show "map chunk_id (chunkDocument h opts d) = map chunk_id (chunkDocument h opts d')"
    by (intro chunkDocument_ids_indep) simp_all
  from a show "map chunk_content (chunkDocument h opts d) = map chunk_content (chunkDocument h opts d')"
    by (intro chunkDocument_ids_indep) simp_all
next
  fix c assume "c \<in> set (chunkDocument h opts d)"
  then show "chunk_id c = doc_id d @ '':'' @ take 12 (h (chunk_content c))"
    by (rule chunkDocument_id_of_content)
next
  fix c c'
  assume "c \<in> set (chunkDocument h opts d)" "c' \<in> set (chunkDocument h opts' d')"
    and "doc_id d = doc_id d'"
  then show "chunk_id c = chunk_id c'
              \<longleftrightarrow> take 12 (h (chunk_content c)) = take 12 (h (chunk_content c'))"
    by (simp add: chunkDocument_id_of_content)
qed

theorem chunk_ids_determined_witness:
  "\<forall>h. map chunk_id (chunkDocument h tinyOptions tinyDoc)
        = map chunk_id (chunkDocument h tinyOptions (tinyDoc\<lparr>mime := Pdf, updatedAt := 1700000000000\<rparr>))
      \<and> map chunk_id (chunkDocument h tinyOptions tinyDoc)
        = [''test-doc:'' @ take 12 (h ''abcdefghijk''), ''test-doc:'' @ take 12 (h ''hijk\<newline>hijk'')]"
proof
  fix h
  let ?d' = "tinyDoc\<lparr>mime := Pdf, updatedAt := 1700000000000\<rparr>"
  have m: "(mime tinyDoc = Markdown) = (mime ?d' = Markdown)" by (simp add: tinyDoc_def)
  have 1: "map chunk_id (chunkDocument h tinyOptions tinyDoc) = map chunk_id (chunkDocument h tinyOptions ?d')"
    using chunk_ids_determined[of tinyDoc ?d' h tinyOptions tinyOptions] m by simp
  have "map chunk_content (chunkDocument h tinyOptions tinyDoc) = [''abcdefghijk'', ''hijk\<newline>hijk'']"
    using tinyDoc_chunks[of h, THEN arg_cong, of "map fst"] by (simp add: comp_def)
  moreover have "map chunk_id (chunkDocument h tinyOptions tinyDoc)
      = map (\<lambda>c. doc_id tinyDoc @ '':'' @ take 12 (h (chunk_content c))) (chunkDocument h tinyOptions tinyDoc)"
    using chunk_ids_determined[of tinyDoc tinyDoc h tinyOptions tinyOptions] by simp
  ultimately have 2: "map chunk_id (chunkDocument h tinyOptions tinyDoc)
        = [''test-doc:'' @ take 12 (h ''abcdefghijk''), ''test-doc:'' @ take 12 (h ''hijk\<newline>hijk'')]"
    by (auto simp: tinyDoc_def map_eq_Cons_conv)
  show "map chunk_id (chunkDocument h tinyOptions tinyDoc) = map chunk_id (chunkDocument h tinyOptions ?d')
      \<and> map chunk_id (chunkDocument h tinyOptions tinyDoc)
        = [''test-doc:'' @ take 12 (h ''abcdefghijk''), ''test-doc:'' @ take 12 (h ''hijk\<newline>hijk'')]"
    using 1 2 by simp
qed

text \<open>
  The same id and the same content, once as markdown and once as plain text: the id
  sequences differ, whatever the hash function.
\<close>

theorem chunk_ids_depend_on_mime_counterexample:
  "\<forall>h. doc_id (newlinesDoc Markdown) = doc_id (newlinesDoc Text)
     \<and> content (newlinesDoc Markdown) = content (newlinesDoc Text)
     \<and> map chunk_id (chunkDocument h testOptions (newlinesDoc Markdown))
         \<noteq> map chunk_id (chunkDocument h testOptions (newlinesDoc Text))"
proof
  fix h
  have "length (map chunk_content (chunkDocument h testOptions (newlinesDoc Markdown))) = 1"
    unfolding newlines_markdown_one_chunk by simp
  then have "length (map chunk_id (chunkDocument h testOptions (newlinesDoc Markdown))) = 1"
    by simp
  then have "map chunk_id (chunkDocument h testOptions (newlinesDoc Markdown)) \<noteq> []"
    by (metis length_0_conv zero_neq_one)
  then have "map chunk_id (chunkDocument h testOptions (newlinesDoc Markdown))
         \<noteq> map chunk_id (chunkDocument h testOptions (newlinesDoc Text))"
    by (simp add: newlines_text_no_chunk)
  then show "doc_id (newlinesDoc Markdown) = doc_id (newlinesDoc Text)
     \<and> content (newlinesDoc Markdown) = content (newlinesDoc Text)
     \<and> map chunk_id (chunkDocument h testOptions (newlinesDoc Markdown))
         \<noteq> map chunk_id (chunkDocument h testOptions (newlinesDoc Text))"
    by (simp add: newlinesDoc_def)
qed

text \<open>
  Claim C8.  The claim: a paragraph that alone exceeds the remaining overlap
  budget is carried as its suffix trimmed back to the nearest sentence boundary, and
  nothing of it is carried when the suffix contains no sentence boundary.
  \<open>findSentenceBoundary\<close> falls back to the length of the suffix when it finds no
  boundary.  What holds: when a token that is neither a code fence nor a heading
  alone exceeds the remaining budget \<open>r > 0\<close> and its suffix of \<open>r\<close> characters
  contains no sentence boundary, that whole suffix is carried into the overlap; when
  the token is the last of the flushed buffer the overlap text is that suffix.
\<close>

theorem overlap_without_sentence_boundary:
  "0 < r \<and> r < int (length (tok_content token))
   \<and> tok_type token \<noteq> T_code_fence \<and> tok_type token \<noteq> T_heading
   \<and> \<not> hasBoundary (sliceLast (nat r) (tok_content token))
   \<longrightarrow> overlapLoop (token # earlier) r acc
         = token\<lparr>tok_content := sliceLast (nat r) (tok_content token)\<rparr> # acc
       \<and> length (sliceLast (nat r) (tok_content token)) = nat r
       \<and> (r = overlap opts \<longrightarrow>
            overlapContent (prepareOverlap opts (rev earlier @ [token]))
              = sliceLast (nat r) (tok_content token))"
proof (intro impI conjI)
  assume a: "0 < r \<and> r < int (length (tok_content token))
   \<and> tok_type token \<noteq> T_code_fence \<and> tok_type token \<noteq> T_heading
   \<and> \<not> hasBoundary (sliceLast (nat r) (tok_content token))"
  then show 1: "overlapLoop (token # earlier) r acc
         = token\<lparr>tok_content := sliceLast (nat r) (tok_content token)\<rparr> # acc"
    by (intro overlapLoop_partial) simp_all
  from a show "length (sliceLast (nat r) (tok_content token)) = nat r"
    by (intro sliceLast_length) linarith
  assume "r = overlap opts"
  then show "overlapContent (prepareOverlap opts (rev earlier @ [token]))
              = sliceLast (nat r) (tok_content token)"
    using a by (simp add: prepareOverlap_def Let_def overlapLoop_partial del: overlapLoop.simps)
qed

theorem overlap_without_sentence_boundary_witness:
  "\<not> hasBoundary (sliceLast 4 ''abcdefghijk'')
   \<and> sliceLast 4 ''abcdefghijk'' = ''hijk''
   \<and> overlapLoop [mkToken 0 T_paragraph ''abcdefghijk''] 4 []
       = [(mkToken 0 T_paragraph ''abcdefghijk'')\<lparr>tok_content := ''hijk''\<rparr>]"
proof -
  have s: "sliceLast 4 ''abcdefghijk'' = ''hijk''" by (simp add: sliceLast_def)
  have n: "\<not> hasBoundary (sliceLast (nat 4) (tok_content (mkToken 0 T_paragraph ''abcdefghijk'')))"
    by (simp add: mkToken_def s)
  have "overlapLoop (mkToken 0 T_paragraph ''abcdefghijk'' # []) 4 []
       = (mkToken 0 T_paragraph ''abcdefghijk'')\<lparr>tok_content :=
            sliceLast (nat 4) (tok_content (mkToken 0 T_paragraph ''abcdefghijk''))\<rparr> # []"
    using overlap_without_sentence_boundary[of 4 "mkToken 0 T_paragraph ''abcdefghijk''" "[]" "[]" tinyOptions] n
    by (simp add: mkToken_def del: overlapLoop.simps)
  then show ?thesis using n by (simp add: mkToken_def s del: overlapLoop.simps)
qed

text \<open>
  With an overlap of 4 the paragraph \<open>abcdefghijk\<close> has the suffix \<open>hijk\<close>, which
  contains no sentence boundary, and \<open>hijk\<close> is carried.
\<close>

theorem overlap_carried_without_boundary_counterexample:
  "\<not> hasBoundary (sliceLast (nat (overlap tinyOptions)) ''abcdefghijk'')
   \<and> int (length ''abcdefghijk'') > overlap tinyOptions
   \<and> overlapContent (prepareOverlap tinyOptions [mkToken 0 T_paragraph ''abcdefghijk'']) = ''hijk''
   \<and> map tok_content (nextBuffer (prepareOverlap tinyOptions [mkToken 0 T_paragraph ''abcdefghijk'']))
       = [''hijk'']"
  by (simp add: tinyOptions_def mkToken_def Let_def isSpace_def
      prepareOverlap_def sliceLast_def findSentenceBoundary_def)

text \<open>
  Claim C10.  For every document whose content is longer than \<open>maxLen\<close>, every
  chunk that \<open>chunkDocument\<close> yields, the last one included, has
  \<open>overlapWithNext = true\<close>.
\<close>

theorem chunkDocument_overlapWithNext:
  "int (length (content doc)) > maxLen opts \<Longrightarrow>
     \<forall>c \<in> set (chunkDocument h opts doc). overlapWithNext (meta c)"
proof
  fix c
  assume big: "int (length (content doc)) > maxLen opts"
    and c: "c \<in> set (chunkDocument h opts doc)"
  let ?cs = "map (chunkOf h doc) (flushes opts (tokenizeDocument doc) [] 0 [] 0)"
  from c obtain k where k: "k < length ?cs" and ck: "c = setOrder 0 ?cs ! k"
    unfolding chunkDocument_large[OF big] in_set_conv_nth setOrder_length by blast
  have "overlapWithNext (meta (?cs ! k))"
    using k by (simp add: chunkOf_def Let_def)
  then show "overlapWithNext (meta c)"
    unfolding ck setOrder_nth[OF k] by simp
qed

theorem chunkDocument_overlapWithNext_witness:
  "\<forall>h. int (length (content tinyDoc)) > maxLen tinyOptions
     \<and> length (chunkDocument h tinyOptions tinyDoc) = 2
     \<and> list_all (\<lambda>c. overlapWithNext (meta c)) (chunkDocument h tinyOptions tinyDoc)"
proof
  fix h
  have big: "int (length (content tinyDoc)) > maxLen tinyOptions"
    by (simp add: tinyDoc_def tinyOptions_def)
  have "length (map (\<lambda>c. (chunk_content c, overlapWithPrev (meta c), overlapWithNext (meta c),
                order (meta c))) (chunkDocument h tinyOptions tinyDoc)) = 2"
    unfolding tinyDoc_chunks by simp
  then have len: "length (chunkDocument h tinyOptions tinyDoc) = 2" by simp
  show "int (length (content tinyDoc)) > maxLen tinyOptions
     \<and> length (chunkDocument h tinyOptions tinyDoc) = 2
     \<and> list_all (\<lambda>c. overlapWithNext (meta c)) (chunkDocument h tinyOptions tinyDoc)"
    using big len chunkDocument_overlapWithNext[OF big, of h]
    by (simp add: list_all_iff)
qed


section \<open>Sync session state (src/sync-state.ts)\<close>

text \<open>
  The manager is the record of its three mutable parts: the live session, the abort
  flag of the current \<open>AbortController\<close> (none before the first session), and the
  session file.  Each method takes the manager and returns the new one with its result.
  The session file is modelled after \<open>existsSync\<close>, \<open>readFileSync\<close> and \<open>JSON.parse\<close>:
  absent, unparseable, or the parsed value.  Writing and deleting the file are taken
  to succeed (the code logs and ignores their failures).  Numbers of the session are
  finite doubles, held as \<open>rat\<close>, and every arithmetic operation on them rounds with
  \<open>fl\<close>; negative zero is not modelled.  A \<open>DeltaAction\<close> is the plain object it is at
  run time.
\<close>

subsection \<open>Numbers that may not be finite\<close>

datatype jsnum = Finite rat | PosInfinity | NegInfinity | NaN

definition js_div :: "rat \<Rightarrow> rat \<Rightarrow> jsnum" where
  "js_div a b =
     (if b = 0 then (if a = 0 then NaN else if 0 < a then PosInfinity else NegInfinity)
      else Finite (fl (a / b)))"

fun Math_ceil :: "jsnum \<Rightarrow> jsnum" where
  "Math_ceil (Finite x) = Finite (of_int \<lceil>x\<rceil>)"
| "Math_ceil v = v"

fun Math_max1 :: "jsnum \<Rightarrow> jsnum" where
  "Math_max1 (Finite x) = Finite (max 1 x)"
| "Math_max1 PosInfinity = PosInfinity"
| "Math_max1 NegInfinity = Finite 1"
| "Math_max1 NaN = NaN"

subsection \<open>The persisted file\<close>

datatype json =
    JNull
  | JBool bool
  | JNum rat
  | JString string
  | JArray "json list"
  | JObject "(string \<times> json) list"

type_synonym DeltaAction = json

datatype sessionFile = NoFile | Unparseable | Parsed json

text \<open>Property access \<open>data.key\<close>: \<open>None\<close> stands for \<open>undefined\<close>.\<close>

fun field :: "json \<Rightarrow> string \<Rightarrow> json option" where
  "field (JObject kvs) k = map_of kvs k"
| "field v k = None"

fun truthy :: "json option \<Rightarrow> bool" where
  "truthy None = False"
| "truthy (Some JNull) = False"
| "truthy (Some (JBool b)) = b"
| "truthy (Some (JNum n)) = (n \<noteq> 0)"
| "truthy (Some (JString s)) = (s \<noteq> [])"
| "truthy (Some (JArray xs)) = True"
| "truthy (Some (JObject kvs)) = True"

fun isString :: "json option \<Rightarrow> bool" where
  "isString (Some (JString s)) = True"
| "isString v = False"

fun isNumber :: "json option \<Rightarrow> bool" where
  "isNumber (Some (JNum n)) = True"
| "isNumber v = False"

fun isArray :: "json option \<Rightarrow> bool" where
  "isArray (Some (JArray xs)) = True"
| "isArray v = False"

definition isValidSession :: "json \<Rightarrow> bool" where
  "isValidSession data \<longleftrightarrow>
     truthy (Some data) \<and>
     isString (field data ''id'') \<and>
     isString (field data ''state'') \<and>
     isNumber (field data ''startTime'') \<and>
     isNumber (field data ''totalActions'') \<and>
     isNumber (field data ''processedActions'') \<and>
     isArray (field data ''remainingActions'') \<and>
     isArray (field data ''errors'') \<and>
     isNumber (field data ''lastCheckpointTime'') \<and>
     isNumber (field data ''batchSize'')"

subsection \<open>Sessions\<close>

record SyncSession =
  session_id :: string
  state :: string
  startTime :: rat
  pauseTime :: "rat option"
  resumeTime :: "rat option"
  totalActions :: rat
  processedActions :: rat
  remainingActions :: "DeltaAction list"
  processedIds :: "json list"
  errors :: "json list"
  lastCheckpointTime :: rat
  batchSize :: rat

record SyncProgress =
  processed :: rat
  progress_total :: rat
  percentage :: int
  remaining :: rat
  currentBatch :: jsnum
  totalBatches :: jsnum
  progress_state :: string
  elapsedTime :: rat
  estimatedTimeRemaining :: "int option"

record Manager =
  currentSession :: "SyncSession option"
  aborted :: "bool option"
  sessionFile :: sessionFile

text \<open>A \<open>Set\<close> compares primitive values by value and objects by identity.\<close>

fun isPrimitive :: "json \<Rightarrow> bool" where
  "isPrimitive (JArray xs) = False"
| "isPrimitive (JObject kvs) = False"
| "isPrimitive v = True"

definition Set_add_value :: "json list \<Rightarrow> json \<Rightarrow> json list" where
  "Set_add_value s x = (if isPrimitive x \<and> x \<in> set s then s else s @ [x])"

definition new_Set_values :: "json list \<Rightarrow> json list" where
  "new_Set_values xs = fold (\<lambda>x s. Set_add_value s x) xs []"

datatype error = TypeError

text \<open>
  \<open>new Set(sessionData.processedIds || [])\<close>: a falsy value gives the empty set, an
  array its elements, a non-empty string its characters; anything else is not iterable.
\<close>

fun processedIdsSet :: "json option \<Rightarrow> error + json list" where
  "processedIdsSet (Some (JArray xs)) = Inr (new_Set_values xs)"
| "processedIdsSet (Some (JString s)) = Inr (new_Set_values (map (\<lambda>c. JString [c]) s))"
| "processedIdsSet v = (if truthy v then Inl TypeError else Inr [])"

fun theString :: "json option \<Rightarrow> string" where
  "theString (Some (JString s)) = s"
| "theString v = []"

fun theNumber :: "json option \<Rightarrow> rat" where
  "theNumber (Some (JNum n)) = n"
| "theNumber v = 0"

fun theArray :: "json option \<Rightarrow> json list" where
  "theArray (Some (JArray xs)) = xs"
| "theArray v = []"

fun optNumber :: "json option \<Rightarrow> rat option" where
  "optNumber (Some (JNum n)) = Some n"
| "optNumber v = None"

text \<open>
  The cast of a validated record to \<open>SyncSession\<close>.  The fields \<open>isValidSession\<close>
  checks are read at their checked type.  \<open>pauseTime\<close> and \<open>resumeTime\<close> are not
  checked; the cast trusts them to be numbers or absent, and so does this reading.
  A record that holds anything else there is outside this model: the code keeps what
  it finds and \<open>getProgress\<close> converts it to a number when it subtracts.
\<close>

definition asSession :: "json \<Rightarrow> json list \<Rightarrow> SyncSession" where
  "asSession data ids =
     \<lparr>session_id = theString (field data ''id''),
      state = theString (field data ''state''),
      startTime = theNumber (field data ''startTime''),
      pauseTime = optNumber (field data ''pauseTime''),
      resumeTime = optNumber (field data ''resumeTime''),
      totalActions = theNumber (field data ''totalActions''),
      processedActions = theNumber (field data ''processedActions''),
      remainingActions = theArray (field data ''remainingActions''),
      processedIds = ids,
      errors = theArray (field data ''errors''),
      lastCheckpointTime = theNumber (field data ''lastCheckpointTime''),
      batchSize = theNumber (field data ''batchSize'')\<rparr>"

definition clearSessionFile :: "Manager \<Rightarrow> Manager" where
  "clearSessionFile m = m\<lparr>sessionFile := NoFile\<rparr>"

definition loadSession :: "Manager \<Rightarrow> SyncSession option \<times> Manager" where
  "loadSession m =
     (case sessionFile m of
        NoFile \<Rightarrow> (None, m)
      | Unparseable \<Rightarrow> (None, clearSessionFile m)
      | Parsed sessionData \<Rightarrow>
          (if \<not> isValidSession sessionData then (None, clearSessionFile m)
           else (case processedIdsSet (field sessionData ''processedIds'') of
                   Inl e \<Rightarrow> (None, clearSessionFile m)
                 | Inr ids \<Rightarrow> (Some (asSession sessionData ids), m))))"

definition optField :: "string \<Rightarrow> rat option \<Rightarrow> (string \<times> json) list" where
  "optField k v = (case v of None \<Rightarrow> [] | Some n \<Rightarrow> [(k, JNum n)])"

text \<open>
  \<open>JSON.stringify\<close> of the session with \<open>processedIds\<close> as an array, read back: an
  absent optional field is left out.  The order of the keys is not modelled.
\<close>

definition sessionJson :: "SyncSession \<Rightarrow> json" where
  "sessionJson s =
     JObject ([(''id'', JString (session_id s)),
               (''state'', JString (state s)),
               (''startTime'', JNum (startTime s))]
              @ optField ''pauseTime'' (pauseTime s)
              @ optField ''resumeTime'' (resumeTime s)
              @ [(''totalActions'', JNum (totalActions s)),
                 (''processedActions'', JNum (processedActions s)),
                 (''remainingActions'', JArray (remainingActions s)),
                 (''processedIds'', JArray (processedIds s)),
                 (''errors'', JArray (errors s)),
                 (''lastCheckpointTime'', JNum (lastCheckpointTime s)),
                 (''batchSize'', JNum (batchSize s))])"

definition saveSession :: "Manager \<Rightarrow> Manager" where
  "saveSession m =
     (case currentSession m of
        None \<Rightarrow> m
      | Some s \<Rightarrow> m\<lparr>sessionFile := Parsed (sessionJson s)\<rparr>)"

definition clearSession :: "Manager \<Rightarrow> Manager" where
  "clearSession m = clearSessionFile (m\<lparr>currentSession := None, aborted := None\<rparr>)"

definition freshSession :: "DeltaAction list \<Rightarrow> rat \<Rightarrow> rat \<Rightarrow> string \<Rightarrow> SyncSession" where
  "freshSession actions batchSz now newId =
     \<lparr>session_id = newId, state = ''running'', startTime = now,
      pauseTime = None, resumeTime = None,
      totalActions = of_nat (length actions), processedActions = 0,
      remainingActions = actions, processedIds = [], errors = [],
      lastCheckpointTime = now, batchSize = batchSz\<rparr>"

text \<open>
  \<open>now\<close> is \<open>Date.now()\<close> and \<open>newId\<close> the result of \<open>generateSessionId()\<close>, which
  reads the clock and \<open>Math.random()\<close>.
\<close>

definition initializeSession ::
  "Manager \<Rightarrow> DeltaAction list \<Rightarrow> rat \<Rightarrow> rat \<Rightarrow> string \<Rightarrow> SyncSession \<times> Manager" where
  "initializeSession m actions batchSz now newId =
     (let (existingSession, m1) = loadSession m;
          session =
            (case existingSession of
               Some existing \<Rightarrow>
                 (if state existing = ''paused'' \<and> length (remainingActions existing) > 0
                  then existing\<lparr>state := ''running'', resumeTime := Some now,
                                batchSize := batchSz\<rparr>
                  else freshSession actions batchSz now newId)
             | None \<Rightarrow> freshSession actions batchSz now newId)
      in (session, saveSession (m1\<lparr>currentSession := Some session, aborted := Some False\<rparr>)))"

text \<open>
  \<open>xs.slice(0, n)\<close>: \<open>n\<close> is truncated towards zero; a negative \<open>n\<close> counts from
  the end.
\<close>

definition slice0 :: "'a list \<Rightarrow> rat \<Rightarrow> 'a list" where
  "slice0 xs n =
     (let k = (if 0 \<le> n then \<lfloor>n\<rfloor> else \<lceil>n\<rceil>)
      in if 0 \<le> k then take (nat k) xs else take (length xs - nat (- k)) xs)"

definition getNextBatch :: "Manager \<Rightarrow> DeltaAction list \<times> bool" where
  "getNextBatch m =
     (case currentSession m of
        None \<Rightarrow> ([], False)
      | Some s \<Rightarrow>
          (if state s \<noteq> ''running'' then ([], False)
           else (slice0 (remainingActions s) (batchSize s),
                 of_nat (length (remainingActions s)) > batchSize s)))"

text \<open>
  \<open>processedIds.add(action.id)\<close>; an action without an \<open>id\<close>, which the interface
  \<open>DeltaAction\<close> excludes, is recorded as \<open>null\<close>.
\<close>

definition addId :: "DeltaAction \<Rightarrow> json list \<Rightarrow> json list" where
  "addId action ids =
     Set_add_value ids (case field action ''id'' of None \<Rightarrow> JNull | Some v \<Rightarrow> v)"

definition completeBatch :: "Manager \<Rightarrow> DeltaAction list \<Rightarrow> rat \<Rightarrow> Manager" where
  "completeBatch m completedActions now =
     (case currentSession m of
        None \<Rightarrow> m
      | Some s \<Rightarrow>
          saveSession (m\<lparr>currentSession := Some (s\<lparr>
            remainingActions := drop (length completedActions) (remainingActions s),
            processedActions := fl (processedActions s + of_nat (length completedActions)),
            processedIds := fold addId completedActions (processedIds s),
            lastCheckpointTime := now\<rparr>)\<rparr>))"

definition addError :: "Manager \<Rightarrow> string \<Rightarrow> Manager" where
  "addError m e =
     (case currentSession m of
        None \<Rightarrow> m
      | Some s \<Rightarrow> saveSession (m\<lparr>currentSession := Some (s\<lparr>errors := errors s @ [JString e]\<rparr>)\<rparr>))"

definition abort :: "Manager \<Rightarrow> Manager" where
  "abort m = (case aborted m of None \<Rightarrow> m | Some b \<Rightarrow> m\<lparr>aborted := Some True\<rparr>)"

definition pauseSession :: "Manager \<Rightarrow> rat \<Rightarrow> bool \<times> Manager" where
  "pauseSession m now =
     (case currentSession m of
        None \<Rightarrow> (False, m)
      | Some s \<Rightarrow>
          (if state s \<noteq> ''running'' then (False, m)
           else (True, abort (saveSession (m\<lparr>currentSession :=
                    Some (s\<lparr>state := ''paused'', pauseTime := Some now\<rparr>)\<rparr>)))))"

definition resumeSession :: "Manager \<Rightarrow> rat \<Rightarrow> bool \<times> Manager" where
  "resumeSession m now =
     (case currentSession m of
        None \<Rightarrow> (False, m)
      | Some s \<Rightarrow>
          (if state s \<noteq> ''paused'' then (False, m)
           else (True, saveSession (m\<lparr>currentSession :=
                    Some (s\<lparr>state := ''running'', resumeTime := Some now\<rparr>),
                    aborted := Some False\<rparr>))))"

text \<open>
  \<open>stopSession\<close> sets a timer of 500 ms; \<open>clearSession\<close> is what the timer runs.
\<close>

definition stopSession :: "Manager \<Rightarrow> bool \<times> Manager" where
  "stopSession m =
     (case currentSession m of
        None \<Rightarrow> (False, m)
      | Some s \<Rightarrow>
          (if state s = ''idle'' then (False, m)
           else (True, abort (saveSession (m\<lparr>currentSession :=
                    Some (s\<lparr>state := ''stopping''\<rparr>)\<rparr>)))))"

definition completeSession :: "Manager \<Rightarrow> Manager" where
  "completeSession m =
     (case currentSession m of
        None \<Rightarrow> m
      | Some s \<Rightarrow> clearSession (m\<lparr>currentSession := Some (s\<lparr>state := ''idle''\<rparr>)\<rparr>))"

definition getProgress :: "Manager \<Rightarrow> rat \<Rightarrow> SyncProgress option" where
  "getProgress m now =
     (case currentSession m of
        None \<Rightarrow> None
      | Some s \<Rightarrow>
          (let processedN = processedActions s;
               totalN = totalActions s;
               remainingN = fl (totalN - processedN);
               percent = (if totalN > 0 then Math_round (fl (fl (processedN / totalN) * 100))
                          else 0);
               currentTime = (case pauseTime s of
                                None \<Rightarrow> now
                              | Some p \<Rightarrow> if p \<noteq> 0 then p else now);
               elapsed = fl (currentTime - startTime s);
               estimated =
                 (if processedN > 0 \<and> state s = ''running''
                  then (let timePerAction = fl (elapsed / processedN)
                        in Some (Math_round (fl (timePerAction * remainingN))))
                  else None);
               totalB = Math_ceil (js_div totalN (batchSize s));
               currentB = Math_ceil (js_div processedN (batchSize s))
           in Some \<lparr>processed = processedN, progress_total = totalN, percentage = percent,
                     remaining = remainingN, currentBatch = Math_max1 currentB,
                     totalBatches = Math_max1 totalB, progress_state = state s,
                     elapsedTime = elapsed, estimatedTimeRemaining = estimated\<rparr>))"


text \<open>\<open>getAbortSignal()?.aborted\<close>: false when there is no controller.\<close>

definition signalAborted :: "Manager \<Rightarrow> bool" where
  "signalAborted m = (case aborted m of None \<Rightarrow> False | Some b \<Rightarrow> b)"

subsection \<open>Fixtures\<close>

text \<open>
  A manager on an empty data directory and the actions of the tests (distinct ids).
\<close>

definition newManager :: Manager where
  "newManager = \<lparr>currentSession = None, aborted = None, sessionFile = NoFile\<rparr>"

definition createTestActions :: "nat \<Rightarrow> DeltaAction list" where
  "createTestActions n =
     map (\<lambda>i. JObject [(''action'', JString ''upsert''),
                        (''id'', JString (''doc_'' @ replicate i (CHR ''i'')))]) [0..<n]"

text \<open>A session of 20 actions with batch size 5, after two completed batches.\<close>

definition twoBatchesDone :: Manager where
  "twoBatchesDone =
     (let m0 = snd (initializeSession newManager (createTestActions 20) 5 1000 ''sync_1'');
          m1 = completeBatch m0 (fst (getNextBatch m0)) 1010;
          m2 = completeBatch m1 (fst (getNextBatch m1)) 1020
      in m2)"

subsection \<open>Progress\<close>

text \<open>
  The ceiling of a rounded quotient of integers is the ceiling of the exact quotient,
  as long as the dividend stays below \<open>2^52\<close>.
\<close>

lemma ceiling_fl_div:
  assumes a: "0 \<le> a" "a < 2 ^ 52" and b: "0 < b"
  shows "\<lceil>fl (of_int a / of_int b)\<rceil> = \<lceil>(of_int a / of_int b :: rat)\<rceil>"
proof -
  define x :: rat where "x = of_int a / of_int b"
  define n where "n = a div b"
  have n0: "0 \<le> n" using a b by (simp add: n_def pos_imp_zdiv_nonneg_iff)
  have ab: "a = n * b + a mod b" by (simp add: n_def)
  have m0: "0 \<le> a mod b" using b by simp
  then have nb: "n * b \<le> a" using ab by linarith
  have "n * 1 \<le> n * b" using n0 b by (intro mult_left_mono) simp_all
  then have nle: "n \<le> a" using nb by simp
  have bpos: "(0::rat) < of_int b" using b by simp
  show ?thesis
  proof (cases "b dvd a")
    case True
    then have "a = n * b" using ab by (simp add: n_def)
    then have "x = of_int n" unfolding x_def using bpos by simp
    moreover have "\<bar>n\<bar> \<le> 2 ^ 53" using n0 nle a by simp
    ultimately show ?thesis unfolding x_def[symmetric] by (simp add: fl_of_int)
  next
    case False
    then have r: "1 \<le> a mod b" using b
      by (metis int_one_le_iff_zero_less mod_eq_0_iff_dvd mod_int_pos_iff
          order.order_iff_strict)
    have xlow: "of_int n + 1 / of_int b \<le> x"
    proof -
      have "n * b + 1 \<le> a" using ab r by linarith
      then have "of_int (n * b + 1) \<le> (of_int a :: rat)" by (simp only: of_int_le_iff)
      then have "(of_int n * of_int b + 1) / of_int b \<le> x"
        unfolding x_def using bpos by (simp add: divide_right_mono)
      moreover have "(of_int n * of_int b + 1) / of_int b = (of_int n :: rat) + 1 / of_int b"
        using bpos by (simp add: field_simps)
      ultimately show ?thesis by simp
    qed
    have xup: "x < of_int n + 1"
    proof -
      have "a mod b < b" using b by simp
      then have "a < n * b + b" using ab by linarith
      then have "(of_int a :: rat) < of_int (n * b + b)" by (simp only: of_int_less_iff)
      then have "(of_int a :: rat) < (of_int n + 1) * of_int b" by (simp add: algebra_simps)
      then show ?thesis unfolding x_def using bpos by (simp add: pos_divide_less_eq)
    qed
    have ib: "(0::rat) < 1 / of_int b" using bpos by simp
    have nonint: "\<lceil>x\<rceil> = n + 1"
    proof (rule ceiling_unique)
      have "of_int n < x" using xlow ib by linarith
      then show "of_int (n + 1) - 1 < x" by simp
      show "x \<le> of_int (n + 1)" using xup by simp
    qed
    define j where "j = floorlog 2 (nat b)"
    have bj: "nat b < 2 ^ j" "2 ^ (j - 1) \<le> nat b"
      using floorlog_bounds[of "nat b" 2] b by (simp_all add: j_def)
    have jpos: "0 < j" unfolding j_def using b by (intro floorlog2_pos) simp
    have b2j: "b < 2 ^ j" using bj(1) b by simp
    have j2b: "(2::int) ^ j \<le> 2 * b" using bj(2) b jpos
      by (metis mult_left_mono numeral_power_le_nat_cancel_iff power_commutes
          power_minus_mult zero_le_numeral)
    define mm where "mm = n * 2 ^ j + 1"
    have "n * 2 ^ j \<le> n * (2 * b)" using j2b n0 by (rule mult_left_mono)
    also have "\<dots> \<le> 2 * a" using nb by simp
    finally have "mm \<le> 2 * a + 1" unfolding mm_def by simp
    moreover have "0 \<le> mm" unfolding mm_def using n0 by simp
    ultimately have mm53: "\<bar>mm\<bar> \<le> 2 ^ 53" using a by simp
    have p2: "(2::rat) powi (- int j) = 1 / 2 ^ j" by (simp add: power_int_minus field_simps)
    have y: "of_int mm * (2::rat) powi (- int j) = of_int n + 1 / 2 ^ j"
      unfolding mm_def p2 by (simp add: field_simps)
    have "b \<le> 2 ^ j" using b2j by simp
    then have "(of_int b :: rat) \<le> of_int (2 ^ j)" by (simp only: of_int_le_iff)
    then have "(of_int b :: rat) \<le> 2 ^ j" by simp
    then have "(1::rat) / 2 ^ j \<le> 1 / of_int b" using bpos by (intro frac_le) simp_all
    then have "of_int mm * (2::rat) powi (- int j) \<le> x" using xlow unfolding y by simp
    then have "of_int mm * (2::rat) powi (- int j) \<le> fl x" using mm53 by (intro fl_ge)
    moreover have "(0::rat) < 1 / 2 ^ j" by simp
    ultimately have low: "of_int n < fl x" unfolding y by linarith
    have "x \<le> of_int (n + 1) * 2 powi 0" using xup by simp
    then have "fl x \<le> of_int (n + 1) * 2 powi 0" using n0 nle a by (intro fl_le) simp_all
    then have up: "fl x \<le> of_int n + 1" by simp
    have "\<lceil>fl x\<rceil> = n + 1" using low up by (intro ceiling_unique) simp_all
    then show ?thesis unfolding x_def[symmetric] nonint .
  qed
qed

lemma Math_ceil_js_div:
  assumes "P < 2 ^ 52" "0 < B"
  shows "Math_max1 (Math_ceil (js_div (of_nat P) (of_nat B)))
           = Finite (of_int (max 1 \<lceil>(of_nat P / of_nat B :: rat)\<rceil>))"
proof -
  have "int P < 2 ^ 52" using assms(1) by (metis of_nat_less_iff of_nat_numeral of_nat_power)
  then have "\<lceil>fl (of_int (int P) / of_int (int B))\<rceil> = \<lceil>(of_int (int P) / of_int (int B) :: rat)\<rceil>"
    using assms(2) by (intro ceiling_fl_div) simp_all
  then have "\<lceil>fl (of_nat P / of_nat B)\<rceil> = \<lceil>(of_nat P / of_nat B :: rat)\<rceil>" by simp
  then show ?thesis using assms(2) by (simp add: js_div_def max_def)
qed

lemma twoBatchesDone_session:
  "map_option (\<lambda>s. (totalActions s, processedActions s, batchSize s, startTime s, pauseTime s,
                     state s)) (currentSession twoBatchesDone)
     = Some (20, 10, 5, 1000, None, ''running'')"
  by code_simp

lemma half_percentage: "Math_round (fl (fl (1 / 2) * 100)) = 50"
  by code_simp

text \<open>
  Claim C5.  The claim: for every live session, also with no processed or no
  total actions, \<open>progress()\<close> returns percentage = round(processed/total * 100),
  remaining = total - processed, currentBatch = ceil(processed/batchSize),
  totalBatches = ceil(total/batchSize), elapsedTime = (pauseTime if set, else now)
  - startTime, and estimatedTimeRemaining = elapsedTime/processed * remaining exactly
  when processed > 0 and the state is running; 20 actions with batch size 5 after 2
  batches give processed 10, percentage 50, remaining 10, currentBatch 2,
  totalBatches 4.  The code clamps both batch numbers with \<open>Math.max(1, ...)\<close>, returns
  percentage 0 when total is 0, rounds the estimate with \<open>Math.round\<close>, and computes
  percentage and estimate in double arithmetic.  What holds, for a session with
  natural counters below \<open>2^52\<close>, a positive integer batch size and integer times:
  the formulas below, with currentBatch = max(1, ceil(processed/batchSize)) and
  totalBatches = max(1, ceil(total/batchSize)); the example holds as claimed.
\<close>

theorem getProgress_formulas:
  assumes "currentSession m = Some s"
    and "totalActions s = of_nat T" "processedActions s = of_nat P" "batchSize s = of_nat B"
    and "0 < B" "T < 2 ^ 52" "P < 2 ^ 52"
    and "startTime s = of_int st" "pauseTime s = map_option of_int pt"
    and "cur = (case pt of None \<Rightarrow> n | Some p \<Rightarrow> if p \<noteq> 0 then p else n)"
    and "\<bar>cur - st\<bar> \<le> 2 ^ 53"
  shows "getProgress m (of_int n) =
     Some \<lparr>processed = of_nat P, progress_total = of_nat T,
           percentage = (if 0 < T then Math_round (fl (fl (of_nat P / of_nat T) * 100)) else 0),
           remaining = of_int (int T - int P),
           currentBatch = Finite (of_int (max 1 \<lceil>(of_nat P / of_nat B :: rat)\<rceil>)),
           totalBatches = Finite (of_int (max 1 \<lceil>(of_nat T / of_nat B :: rat)\<rceil>)),
           progress_state = state s,
           elapsedTime = of_int (cur - st),
           estimatedTimeRemaining =
             (if 0 < P \<and> state s = ''running''
              then Some (Math_round (fl (fl (of_int (cur - st) / of_nat P)
                                          * of_int (int T - int P))))
              else None)\<rparr>"
proof -
  have T: "int T < 2 ^ 52" using assms(6) by (metis of_nat_less_iff of_nat_numeral of_nat_power)
  have P: "int P < 2 ^ 52" using assms(7) by (metis of_nat_less_iff of_nat_numeral of_nat_power)
  have "\<bar>int T - int P\<bar> \<le> 2 ^ 53" using T P by simp
  then have "fl (of_int (int T - int P)) = of_int (int T - int P)" by (rule fl_of_int)
  then have rem: "fl (of_nat T - of_nat P) = of_int (int T - int P)" by simp
  have c: "(case pauseTime s of None \<Rightarrow> of_int n | Some p \<Rightarrow> if p \<noteq> 0 then p else of_int n)
             = (of_int cur :: rat)"
    unfolding assms(9,10) by (cases pt) simp_all
  have "fl (of_int (cur - st)) = of_int (cur - st)" using assms(11) by (rule fl_of_int)
  then have el: "fl (of_int cur - of_int st) = of_int (cur - st)" by simp
  show ?thesis
    unfolding getProgress_def Let_def assms(1) option.case assms(2,3,4,8) c rem el
      Math_ceil_js_div[OF assms(7,5)] Math_ceil_js_div[OF assms(6,5)]
    by simp
qed

theorem getProgress_formulas_witness:
  "map_option (\<lambda>p. (processed p, progress_total p, percentage p, remaining p, currentBatch p,
                     totalBatches p, elapsedTime p))
      (getProgress twoBatchesDone 1030)
   = Some (10, 20, 50, 10, Finite 2, Finite 4, 30)"
proof -
  from twoBatchesDone_session obtain s where s: "currentSession twoBatchesDone = Some s"
    and f: "totalActions s = of_nat 20" "processedActions s = of_nat 10" "batchSize s = of_nat 5"
      "startTime s = of_int 1000" "pauseTime s = map_option of_int None"
    by auto
  have "getProgress twoBatchesDone (of_int 1030) =
     Some \<lparr>processed = of_nat 10, progress_total = of_nat 20,
           percentage = (if (0::nat) < 20 then Math_round (fl (fl (of_nat 10 / of_nat 20) * 100)) else 0),
           remaining = of_int (int 20 - int 10),
           currentBatch = Finite (of_int (max 1 \<lceil>(of_nat 10 / of_nat 5 :: rat)\<rceil>)),
           totalBatches = Finite (of_int (max 1 \<lceil>(of_nat 20 / of_nat 5 :: rat)\<rceil>)),
           progress_state = state s,
           elapsedTime = of_int (1030 - 1000),
           estimatedTimeRemaining =
             (if (0::nat) < 10 \<and> state s = ''running''
              then Some (Math_round (fl (fl (of_int (1030 - 1000) / of_nat 10)
                                          * of_int (int 20 - int 10))))
              else None)\<rparr>"
    by (rule getProgress_formulas[OF s f(1,2,3) _ _ _ f(4,5)]) simp_all
  then show ?thesis by (simp add: half_percentage)
qed

text \<open>
  A fresh session of 20 actions with batch size 5 reports currentBatch 1, not
  ceil(0/5) = 0; a session of no actions reports totalBatches 1.
\<close>

theorem getProgress_fresh_session_counterexample:
  "map_option (\<lambda>p. (processed p, currentBatch p))
      (getProgress (snd (initializeSession newManager (createTestActions 20) 5 1000 ''sync_1'')) 1030)
     = Some (0, Finite 1)
   \<and> \<lceil>(0 / 5 :: rat)\<rceil> = 0
   \<and> map_option (\<lambda>p. (progress_total p, totalBatches p))
      (getProgress (snd (initializeSession newManager [] 5 1000 ''sync_1'')) 1030)
     = Some (0, Finite 1)"
  by code_simp

text \<open>
  The double arithmetic of the percentage shows at 23 of 40: the product of the rounded
  quotient and 100 is just below 57.5.
\<close>

lemma percentage_23_of_40:
  "Math_round (fl (fl (23 / 40) * 100)) = 57 \<and> Math_round (23 / 40 * 100) = 58"
  by code_simp

subsection \<open>Loading a persisted session\<close>

lemma loadSession_invalid:
  assumes "sessionFile m = Unparseable
           \<or> (\<exists>d. sessionFile m = Parsed d
                    \<and> (\<not> isValidSession d \<or> isl (processedIdsSet (field d ''processedIds''))))"
  shows "loadSession m = (None, m\<lparr>sessionFile := NoFile\<rparr>)"
  using assms by (auto simp: loadSession_def clearSessionFile_def split: sum.splits)

text \<open>
  Persisted records: the one the tests corrupt, one whose \<open>totalActions\<close> is a string,
  one whose \<open>processedIds\<close> is a number, and two that \<open>isValidSession\<close> accepts: a paused
  session without \<open>processedIds\<close>, and one whose \<open>processedIds\<close> is a string.
\<close>

definition pausedRecord :: "(string \<times> json) list" where
  "pausedRecord =
     [(''id'', JString ''sync_0''), (''state'', JString ''paused''), (''startTime'', JNum 1000),
      (''pauseTime'', JNum 1500),
      (''totalActions'', JNum 3), (''processedActions'', JNum 1),
      (''remainingActions'', JArray (drop 1 (createTestActions 3))),
      (''errors'', JArray []), (''lastCheckpointTime'', JNum 1010), (''batchSize'', JNum 2)]"

definition wrongTypeRecord :: json where
  "wrongTypeRecord =
     JObject (map (\<lambda>kv. if fst kv = ''totalActions'' then (fst kv, JString ''3'') else kv)
                (pausedRecord @ [(''processedIds'', JArray [JString ''doc_''])]))"

definition notIterableRecord :: json where
  "notIterableRecord = JObject (pausedRecord @ [(''processedIds'', JNum 5)])"

text \<open>
  Claim C9.  The claim: for every persisted session record that is unparseable
  or structurally invalid (a required field missing or of the wrong type),
  \<open>initializeSession\<close> does not raise: it discards the record and creates a fresh
  running session with \<open>processedActions = 0\<close> and the given actions.
  \<open>isValidSession\<close> checks nine fields (\<open>id\<close>, \<open>state\<close>, \<open>startTime\<close>,
  \<open>totalActions\<close>, \<open>processedActions\<close>, \<open>remainingActions\<close>, \<open>errors\<close>,
  \<open>lastCheckpointTime\<close>, \<open>batchSize\<close>) and only their top-level type; \<open>processedIds\<close> is
  read with \<open>|| []\<close>.  What holds: when the file is unparseable, or holds a value that
  fails \<open>isValidSession\<close>, or holds a \<open>processedIds\<close> that is truthy and not iterable
  (the \<open>TypeError\<close> is caught), loading deletes the file and \<open>initializeSession\<close>
  returns a fresh running session with \<open>processedActions = 0\<close> and the given actions,
  which it writes to the file.
\<close>

theorem initializeSession_discards_invalid_record:
  "sessionFile m = Unparseable
   \<or> (\<exists>d. sessionFile m = Parsed d
            \<and> (\<not> isValidSession d \<or> isl (processedIdsSet (field d ''processedIds''))))
   \<longrightarrow>
     loadSession m = (None, m\<lparr>sessionFile := NoFile\<rparr>)
     \<and> initializeSession m actions batchSz now newId
         = (freshSession actions batchSz now newId,
            m\<lparr>currentSession := Some (freshSession actions batchSz now newId),
              aborted := Some False,
              sessionFile := Parsed (sessionJson (freshSession actions batchSz now newId))\<rparr>)
     \<and> state (freshSession actions batchSz now newId) = ''running''
     \<and> processedActions (freshSession actions batchSz now newId) = 0
     \<and> remainingActions (freshSession actions batchSz now newId) = actions"
proof (intro impI conjI)
  assume a: "sessionFile m = Unparseable
   \<or> (\<exists>d. sessionFile m = Parsed d
            \<and> (\<not> isValidSession d \<or> isl (processedIdsSet (field d ''processedIds''))))"
  then show l: "loadSession m = (None, m\<lparr>sessionFile := NoFile\<rparr>)"
    by (rule loadSession_invalid)
  show "initializeSession m actions batchSz now newId
         = (freshSession actions batchSz now newId,
            m\<lparr>currentSession := Some (freshSession actions batchSz now newId),
              aborted := Some False,
              sessionFile := Parsed (sessionJson (freshSession actions batchSz now newId))\<rparr>)"
    by (simp add: initializeSession_def l saveSession_def Let_def)
qed (simp_all add: freshSession_def)

theorem initializeSession_discards_invalid_record_witness:
  "fst (initializeSession (newManager\<lparr>sessionFile := Unparseable\<rparr>) (createTestActions 3) 2 2000 ''sync_1'')
     = freshSession (createTestActions 3) 2 2000 ''sync_1''
   \<and> fst (initializeSession (newManager\<lparr>sessionFile := Parsed wrongTypeRecord\<rparr>) (createTestActions 3) 2 2000 ''sync_1'')
     = freshSession (createTestActions 3) 2 2000 ''sync_1''
   \<and> fst (initializeSession (newManager\<lparr>sessionFile := Parsed notIterableRecord\<rparr>) (createTestActions 3) 2 2000 ''sync_1'')
     = freshSession (createTestActions 3) 2 2000 ''sync_1''
   \<and> processedActions (freshSession (createTestActions 3) 2 2000 ''sync_1'') = 0
   \<and> length (remainingActions (freshSession (createTestActions 3) 2 2000 ''sync_1'')) = 3"
proof -
  have 1: "sessionFile (newManager\<lparr>sessionFile := Unparseable\<rparr>) = Unparseable
   \<or> (\<exists>d. sessionFile (newManager\<lparr>sessionFile := Unparseable\<rparr>) = Parsed d
            \<and> (\<not> isValidSession d \<or> isl (processedIdsSet (field d ''processedIds''))))"
    by simp
  have "\<not> isValidSession wrongTypeRecord"
    by (simp add: isValidSession_def wrongTypeRecord_def pausedRecord_def)
  then have 2: "sessionFile (newManager\<lparr>sessionFile := Parsed wrongTypeRecord\<rparr>) = Unparseable
   \<or> (\<exists>d. sessionFile (newManager\<lparr>sessionFile := Parsed wrongTypeRecord\<rparr>) = Parsed d
            \<and> (\<not> isValidSession d \<or> isl (processedIdsSet (field d ''processedIds''))))"
    by simp
  have "isl (processedIdsSet (field notIterableRecord ''processedIds''))"
    by (simp add: notIterableRecord_def pausedRecord_def)
  then have 3: "sessionFile (newManager\<lparr>sessionFile := Parsed notIterableRecord\<rparr>) = Unparseable
   \<or> (\<exists>d. sessionFile (newManager\<lparr>sessionFile := Parsed notIterableRecord\<rparr>) = Parsed d
            \<and> (\<not> isValidSession d \<or> isl (processedIdsSet (field d ''processedIds''))))"
    by simp
  note t = initializeSession_discards_invalid_record[rule_format]
  show ?thesis
    using t[OF 1, of "createTestActions 3" 2 2000 "''sync_1''"]
      t[OF 2, of "createTestActions 3" 2 2000 "''sync_1''"]
      t[OF 3, of "createTestActions 3" 2 2000 "''sync_1''"]
    by (simp add: createTestActions_def)
qed

text \<open>
  A paused record with one action processed and two remaining, without the required
  \<open>processedIds\<close> or with a string in its place, is accepted and resumed: the session
  keeps its id and \<open>processedActions = 1\<close>.
\<close>

theorem initializeSession_resumes_incomplete_record_counterexample:
  "field (JObject pausedRecord) ''processedIds'' = None
   \<and> map (\<lambda>s. (session_id s, state s, processedActions s, length (remainingActions s)))
       [fst (initializeSession (newManager\<lparr>sessionFile := Parsed (JObject pausedRecord)\<rparr>)
               (createTestActions 3) 2 2000 ''sync_1''),
        fst (initializeSession
               (newManager\<lparr>sessionFile :=
                  Parsed (JObject (pausedRecord @ [(''processedIds'', JString ''doc_'')]))\<rparr>)
               (createTestActions 3) 2 2000 ''sync_1'')]
     = [(''sync_0'', ''running'', 1, 2), (''sync_0'', ''running'', 1, 2)]"
  by code_simp

section \<open>Runner (runner.ts)\<close>













end
